theory Spec2Isabelle
  imports Main "HOL-Library.Sublist"
begin

section \<open>Text model\<close>

text \<open>
  A JavaScript string is a sequence of UTF-16 code units. A code unit is modelled by its
  numeric value, a text by the list of its code units; \<open>text[i]\<close> is \<open>text ! i\<close> and is
  only read below \<open>length text\<close>, as the source guards every read.
\<close>

type_synonym cu = nat
type_synonym jsstring = "cu list"

text \<open>The regular expression class \<open>\s\<close> of ECMAScript.\<close>

definition isWhitespace :: "cu \<Rightarrow> bool" where
  "isWhitespace c \<longleftrightarrow>
     c \<in> {0x09, 0x0A, 0x0B, 0x0C, 0x0D, 0x20, 0xA0, 0x1680, 0x2028, 0x2029, 0x202F,
          0x205F, 0x3000, 0xFEFF} \<or> (0x2000 \<le> c \<and> c \<le> 0x200A)"

section \<open>Character classifier (class SanskritRules)\<close>

definition SKIP_CONSONANTS :: "jsstring list" where
  "SKIP_CONSONANTS =
     [[0x1E45], [0xF1], [0x1E47], [0x6E], [0x6D], [0x72], [0x15B], [0x1E63], [0x73]]"

definition ALL_CONSONANTS :: "jsstring list" where
  "ALL_CONSONANTS =
     [[0x6B], [0x6B, 0x68], [0x67], [0x67, 0x68], [0x1E45],
      [0x63], [0x63, 0x68], [0x6A], [0x6A, 0x68], [0xF1],
      [0x1E6D], [0x1E6D, 0x68], [0x1E0D], [0x1E0D, 0x68], [0x1E47],
      [0x74], [0x74, 0x68], [0x64], [0x64, 0x68], [0x6E],
      [0x70], [0x70, 0x68], [0x62], [0x62, 0x68], [0x6D],
      [0x79], [0x72], [0x6C], [0x76],
      [0x15B], [0x1E63], [0x73], [0x68],
      [0x1E25], [0x1E41], [0x1E43]]"

definition SHORT_VOWELS :: "jsstring list" where
  "SHORT_VOWELS = [[0x61], [0x69], [0x75], [0x1E5B], [0x1E37]]"

definition LONG_VOWELS :: "jsstring list" where
  "LONG_VOWELS =
     [[0x101], [0x12B], [0x16B], [0x1E5D], [0x1E39], [0x65], [0x61, 0x69], [0x6F],
      [0x61, 0x75]]"

definition VOWELS :: "jsstring list" where
  "VOWELS = SHORT_VOWELS @ LONG_VOWELS"

definition SVARA_MARKS :: "cu list" where
  "SVARA_MARKS = [0x331, 0x30D, 0x30E, 0x2CE]"

definition TWO_CHAR_CONSONANTS :: "jsstring list" where
  "TWO_CHAR_CONSONANTS =
     [[0x6B, 0x68], [0x67, 0x68], [0x63, 0x68], [0x6A, 0x68], [0x1E6D, 0x68],
      [0x1E0D, 0x68], [0x74, 0x68], [0x64, 0x68], [0x70, 0x68], [0x62, 0x68]]"

text \<open>
  \<open>isConsonant\<close> and \<open>isVowel\<close> return the matched unit, or \<open>false\<close>/\<open>null\<close>; every
  caller only tests the result for truthiness, so both are \<open>None\<close>.
\<close>

definition isConsonant :: "jsstring \<Rightarrow> nat \<Rightarrow> jsstring option" where
  "isConsonant text pos =
     (if pos \<ge> length text then None
      else if pos + 1 < length text \<and> [text ! pos, text ! (pos + 1)] \<in> set TWO_CHAR_CONSONANTS
        then Some [text ! pos, text ! (pos + 1)]
      else if [text ! pos] \<in> set ALL_CONSONANTS then Some [text ! pos]
      else None)"

definition isVowel :: "jsstring \<Rightarrow> nat \<Rightarrow> jsstring option" where
  "isVowel text pos =
     (if pos \<ge> length text then None
      else if pos + 1 < length text \<and> [text ! pos, text ! (pos + 1)] \<in> set VOWELS
        then Some [text ! pos, text ! (pos + 1)]
      else if [text ! pos] \<in> set VOWELS then Some [text ! pos]
      else None)"

definition isSvaraMark :: "cu \<Rightarrow> bool" where
  "isSvaraMark c \<longleftrightarrow> c \<in> set SVARA_MARKS"

section \<open>Normalizer (preProcessRawText)\<close>

text \<open>
  \<open>text.replace(/pat/g, rep)\<close> for a literal pattern: the leftmost occurrence is replaced,
  and the search goes on after it (the replacement is not searched again).
\<close>

function replaceAll :: "jsstring \<Rightarrow> jsstring \<Rightarrow> jsstring \<Rightarrow> jsstring" where
  "replaceAll pat rep [] = []"
| "replaceAll pat rep (x # xs) =
     (if pat \<noteq> [] \<and> take (length pat) (x # xs) = pat
      then rep @ replaceAll pat rep (drop (length pat) (x # xs))
      else x # replaceAll pat rep xs)"
  by pat_completeness auto
termination
  by (relation "measure (\<lambda>(pat, rep, text). length text)") (auto simp: neq_Nil_conv)

definition preProcessRawText :: "jsstring \<Rightarrow> jsstring" where
  "preProcessRawText text0 =
     (let text = replaceAll [0x951] [0x30D] text0;
          text = replaceAll [0x952] [0x331] text;
          text = replaceAll [0x332] [0x331] text;
          text = replaceAll [0x320] [0x331] text;
          text = replaceAll [0x321] [0x331] text;
          text = replaceAll [0x1CDA] [0x30E] text;
          text = replaceAll [0x341] [0x30E] text;
          text = replaceAll [0x1E43] [0x1E41] text;
          text = replaceAll [0x14D] [0x6F] text;
          text = replaceAll [0x113] [0x65] text;
          text = replaceAll [0x28, 0x67, 0x29, 0x6D] [0x1E41] text;
          text = replaceAll [0x28, 0x67, 0x29, 0x1E41] [0x1E41] text;
          text = replaceAll [0x28, 0x67, 0x331, 0x29, 0x1E41] [0x1E41] text;
          text = replaceAll [0x28, 0x67, 0x331, 0x29, 0x6D] [0x1E41] text
      in text)"

section \<open>Holding locator\<close>

subsection \<open>findPreviousVowel\<close>

record prevVowel =
  pv_vowel :: jsstring
  pv_blocked :: bool
  pv_position :: int

text \<open>
  The loop \<open>let i = pos - 1; while (i >= 0) { ... i--; }\<close>. The argument of the recursion
  is \<open>i + 1\<close>, so that \<open>Suc i\<close> is the state in which \<open>text[i]\<close> is inspected and \<open>0\<close> is
  the exit \<open>i = -1\<close>.
\<close>

fun findPreviousVowel_loop :: "jsstring \<Rightarrow> bool \<Rightarrow> nat \<Rightarrow> prevVowel" where
  "findPreviousVowel_loop text blockAtSpace 0 =
     \<lparr>pv_vowel = [], pv_blocked = False, pv_position = -1\<rparr>"
| "findPreviousVowel_loop text blockAtSpace (Suc i) =
     (if text ! i = 0x7C then findPreviousVowel_loop text blockAtSpace i
      else if isSvaraMark (text ! i) then findPreviousVowel_loop text blockAtSpace i
      else if isWhitespace (text ! i) \<and> blockAtSpace
        then \<lparr>pv_vowel = [], pv_blocked = True, pv_position = -1\<rparr>
      else if text ! i = 0x1E41 \<or> text ! i = 0x1E43 \<or> text ! i = 0x1E25
        then \<lparr>pv_vowel = [text ! i], pv_blocked = False, pv_position = int i\<rparr>
      else (case isVowel text i of
              Some vowel \<Rightarrow> \<lparr>pv_vowel = vowel, pv_blocked = False, pv_position = int i\<rparr>
            | None \<Rightarrow> findPreviousVowel_loop text blockAtSpace i))"

definition findPreviousVowel :: "jsstring \<Rightarrow> nat \<Rightarrow> bool \<Rightarrow> prevVowel" where
  "findPreviousVowel text pos blockAtSpace = findPreviousVowel_loop text blockAtSpace pos"

subsection \<open>findSamyuktaLength\<close>

text \<open>The loop of \<open>findSamyuktaLength\<close> from index \<open>i\<close>; the result is what is still added to \<open>length\<close>.\<close>

function findSamyuktaLength :: "jsstring \<Rightarrow> nat \<Rightarrow> bool \<Rightarrow> nat" where
  "findSamyuktaLength text i countMarks =
     (if i < length text then
        if isWhitespace (text ! i) \<or> text ! i = 0x0A then findSamyuktaLength text (i + 1) countMarks
        else if text ! i = 0x7C then findSamyuktaLength text (i + 1) countMarks
        else if countMarks \<and> isSvaraMark (text ! i) then findSamyuktaLength text (i + 1) countMarks
        else (case isConsonant text i of
                Some consonant \<Rightarrow> 1 + findSamyuktaLength text (i + length consonant) countMarks
              | None \<Rightarrow> 0)
      else 0)"
  by pat_completeness auto
termination
  by (relation "measure (\<lambda>(text, i, countMarks). length text - i)")
     (auto simp: isConsonant_def split: if_splits)

subsection \<open>findHoldingPosition\<close>

record holding =
  h_position :: nat
  h_length :: nat
  h_type :: string
  h_endPos :: "nat option"

definition noHolding :: holding where
  "noHolding = \<lparr>h_position = 0, h_length = 0, h_type = [], h_endPos = None\<rparr>"

text \<open>
  The two identical inner loops that run to the end of the samyukta after a word boundary was
  crossed; the result is \<open>endPos\<close>.
\<close>

function skipToEnd :: "jsstring \<Rightarrow> nat \<Rightarrow> nat" where
  "skipToEnd text i =
     (if i < length text then
        if isSvaraMark (text ! i) then skipToEnd text (i + 1)
        else (case isConsonant text i of
                Some nextCons \<Rightarrow> skipToEnd text (i + length nextCons)
              | None \<Rightarrow> i)
      else i)"
  by pat_completeness auto
termination
  by (relation "measure (\<lambda>(text, i). length text - i)")
     (auto simp: isConsonant_def split: if_splits)

text \<open>
  The traversal loop. \<open>holdingPosition\<close> is not assigned before a \<open>return\<close>, so it is a
  parameter. \<open>lastConsonantBeforeSpace\<close> and \<open>lastConsonantBeforeSpacePos\<close> are assigned
  together: \<open>None\<close> is their initial state \<open>null\<close>, \<open>-1\<close>. The result is \<open>Some\<close> of the
  holding returned inside the loop, \<open>None\<close> when the loop is left by \<open>break\<close> or at the end
  of the text.
\<close>

function traverse ::
  "jsstring \<Rightarrow> nat \<Rightarrow> string \<Rightarrow> nat \<Rightarrow> bool \<Rightarrow> (jsstring \<times> nat) option \<Rightarrow> holding option" where
  "traverse text holdingPosition holdingType i passedOverSpace lastBeforeSpace =
     (if i < length text then
        if isWhitespace (text ! i) \<or> text ! i = 0x0A then
          traverse text holdingPosition holdingType (i + 1) True
            (if \<not> passedOverSpace then
               (case isConsonant text holdingPosition of
                  Some cons \<Rightarrow> Some (cons, holdingPosition)
                | None \<Rightarrow> lastBeforeSpace)
             else lastBeforeSpace)
        else if text ! i = 0x7C then
          traverse text holdingPosition holdingType (i + 1) passedOverSpace lastBeforeSpace
        else if isSvaraMark (text ! i) then
          traverse text holdingPosition holdingType (i + 1) passedOverSpace lastBeforeSpace
        else (case isConsonant text i of
                None \<Rightarrow> None
              | Some cons \<Rightarrow>
                  if passedOverSpace then
                    (case lastBeforeSpace of
                       Some (lastCons, lastPos) \<Rightarrow>
                         if cons = lastCons then
                           Some \<lparr>h_position = lastPos, h_length = length lastCons,
                                 h_type = holdingType,
                                 h_endPos = Some (skipToEnd text (i + length cons))\<rparr>
                         else
                           Some \<lparr>h_position = i, h_length = length cons, h_type = holdingType,
                                 h_endPos = Some (skipToEnd text (i + length cons))\<rparr>
                     | None \<Rightarrow>
                         Some \<lparr>h_position = i, h_length = length cons, h_type = holdingType,
                               h_endPos = Some (skipToEnd text (i + length cons))\<rparr>)
                  else traverse text holdingPosition holdingType (i + length cons)
                         passedOverSpace lastBeforeSpace)
      else None)"
  by pat_completeness auto
termination
  by (relation "measure (\<lambda>(text, hp, ty, i, p, l). length text - i)")
     (auto simp: isConsonant_def split: if_splits)

text \<open>The loop that skips over \<open>SKIP_CONSONANTS\<close>; the result is the final \<open>holdingPosition\<close>.\<close>

function skipSkipConsonants :: "jsstring \<Rightarrow> nat \<Rightarrow> nat" where
  "skipSkipConsonants text holdingPosition =
     (case isConsonant text holdingPosition of
        Some currentCons \<Rightarrow>
          if currentCons \<in> set SKIP_CONSONANTS then
            (if holdingPosition + length currentCons \<ge> length text
             then holdingPosition + length currentCons
             else skipSkipConsonants text (holdingPosition + length currentCons))
          else holdingPosition
      | None \<Rightarrow> holdingPosition)"
  by pat_completeness auto
termination
  by (relation "measure (\<lambda>(text, hp). length text - hp)")
     (auto simp: isConsonant_def split: if_splits)

definition findHoldingPosition :: "jsstring \<Rightarrow> nat \<Rightarrow> holding" where
  "findHoldingPosition text pos =
     (case isConsonant text pos of
        None \<Rightarrow> noHolding
      | Some consonant \<Rightarrow>
          if findSamyuktaLength text pos False \<le> 1 then noHolding
          else
            (let pv = findPreviousVowel text pos True in
             if pv_vowel pv = [] then
               (if pv_blocked pv
                then \<lparr>h_position = pos, h_length = length consonant, h_type = ''short'',
                      h_endPos = None\<rparr>
                else noHolding)
             else
               (let holdingType = (if pv_vowel pv \<in> set LONG_VOWELS then ''long'' else ''short'')
                in case traverse text pos holdingType pos False None of
                     Some h \<Rightarrow> h
                   | None \<Rightarrow>
                       (let holdingPosition = skipSkipConsonants text pos
                        in case isConsonant text holdingPosition of
                             Some currentCons \<Rightarrow>
                               \<lparr>h_position = holdingPosition, h_length = length currentCons,
                                h_type = holdingType, h_endPos = None\<rparr>
                           | None \<Rightarrow> noHolding))))"

subsection \<open>findAllHoldings\<close>

text \<open>The position at which the scan goes on after a holding was pushed.\<close>

definition afterHolding :: "holding \<Rightarrow> nat" where
  "afterHolding h = (case h_endPos h of Some e \<Rightarrow> e | None \<Rightarrow> h_position h + h_length h)"

lemma isConsonant_length:
  "isConsonant text i = Some c \<Longrightarrow> length c = 1 \<or> length c = 2"
  by (auto simp: isConsonant_def split: if_splits)

lemma isConsonant_less:
  "isConsonant text i = Some c \<Longrightarrow> i < length text"
  by (auto simp: isConsonant_def split: if_splits)

declare skipToEnd.simps [simp del] traverse.simps [simp del] skipSkipConsonants.simps [simp del]
  findSamyuktaLength.simps [simp del]

lemma skipToEnd_ge: "i \<le> skipToEnd tx i"
proof (induction tx i rule: skipToEnd.induct)
  case (1 tx i)
  show ?case
  proof (cases "i < length tx")
    case False
    then show ?thesis by (subst skipToEnd.simps) simp
  next
    case inb: True
    show ?thesis
    proof (cases "isSvaraMark (tx ! i)")
      case True
      with inb "1.IH"(1) show ?thesis by (subst skipToEnd.simps) simp
    next
      case nomark: False
      show ?thesis
      proof (cases "isConsonant tx i")
        case None
        with inb nomark show ?thesis by (subst skipToEnd.simps) simp
      next
        case (Some c)
        with inb nomark "1.IH"(2) show ?thesis by (subst skipToEnd.simps) simp
      qed
    qed
  qed
qed

lemma traverse_endPos:
  "traverse tx hp ty i passed lastB = Some h \<Longrightarrow> \<exists>e. h_endPos h = Some e \<and> i < e"
proof (induction tx hp ty i passed lastB rule: traverse.induct)
  case (1 tx hp ty i passed lastB)
  from "1.prems" have inb: "i < length tx"
    by (subst (asm) traverse.simps) (simp split: if_splits)
  show ?case
  proof (cases "isWhitespace (tx ! i) \<or> tx ! i = 0x0A")
    case True
    with inb "1.prems" have "traverse tx hp ty (i + 1) True
            (if \<not> passed then
               (case isConsonant tx hp of
                  Some cons \<Rightarrow> Some (cons, hp)
                | None \<Rightarrow> lastB)
             else lastB) = Some h"
      by (subst (asm) traverse.simps) simp
    from "1.IH"(1)[OF inb True this] show ?thesis by auto
  next
    case nows: False
    show ?thesis
    proof (cases "tx ! i = 0x7C")
      case True
      with inb nows "1.prems" have "traverse tx hp ty (i + 1) passed lastB = Some h"
        by (subst (asm) traverse.simps) simp
      from "1.IH"(2)[OF inb nows True this] show ?thesis by auto
    next
      case nopipe: False
      show ?thesis
      proof (cases "isSvaraMark (tx ! i)")
        case True
        with inb nows nopipe "1.prems" have "traverse tx hp ty (i + 1) passed lastB = Some h"
          by (subst (asm) traverse.simps) simp
        from "1.IH"(3)[OF inb nows nopipe True this] show ?thesis by auto
      next
        case nomark: False
        show ?thesis
        proof (cases "isConsonant tx i")
          case None
          with inb nows nopipe nomark "1.prems" show ?thesis
            by (subst (asm) traverse.simps) simp
        next
          case (Some cons)
          have lc: "0 < length cons" using isConsonant_length[OF Some] by auto
          show ?thesis
          proof (cases passed)
            case True
            have "i + length cons \<le> skipToEnd tx (i + length cons)" by (rule skipToEnd_ge)
            with lc have "i < skipToEnd tx (i + length cons)" by arith
            with inb nows nopipe nomark Some True "1.prems" show ?thesis
              by (subst (asm) traverse.simps) (auto split: option.splits if_splits)
          next
            case False
            with inb nows nopipe nomark Some "1.prems"
            have "traverse tx hp ty (i + length cons) passed lastB = Some h"
              by (subst (asm) traverse.simps) simp
            from "1.IH"(4)[OF inb nows nopipe nomark Some False this] lc show ?thesis by auto
          qed
        qed
      qed
    qed
  qed
qed

lemma skipSkipConsonants_ge: "hp \<le> skipSkipConsonants tx hp"
proof (induction tx hp rule: skipSkipConsonants.induct)
  case (1 tx hp)
  show ?case
  proof (cases "isConsonant tx hp")
    case None
    then show ?thesis by (subst skipSkipConsonants.simps) simp
  next
    case (Some c)
    show ?thesis
    proof (cases "c \<in> set SKIP_CONSONANTS \<and> \<not> length tx \<le> hp + length c")
      case True
      with Some "1.IH" have "hp + length c \<le> skipSkipConsonants tx (hp + length c)" by simp
      with Some True show ?thesis by (subst skipSkipConsonants.simps) simp
    next
      case False
      with Some show ?thesis by (subst skipSkipConsonants.simps) auto
    qed
  qed
qed

lemma afterHolding_findHoldingPosition:
  assumes "0 < h_length (findHoldingPosition text pos)"
  shows "pos < afterHolding (findHoldingPosition text pos)"
proof (cases "isConsonant text pos")
  case None
  with assms show ?thesis by (simp add: findHoldingPosition_def noHolding_def)
next
  case (Some consonant)
  have lc: "0 < length consonant" using isConsonant_length[OF Some] by auto
  show ?thesis
  proof (cases "findSamyuktaLength text pos False \<le> 1")
    case True
    with Some assms show ?thesis by (simp add: findHoldingPosition_def noHolding_def)
  next
    case long: False
    show ?thesis
    proof (cases "pv_vowel (findPreviousVowel text pos True) = []")
      case True
      with Some long assms lc show ?thesis
        by (auto simp: findHoldingPosition_def noHolding_def afterHolding_def Let_def
            split: if_splits)
    next
      case vowel: False
      define ty where "ty = (if pv_vowel (findPreviousVowel text pos True) \<in> set LONG_VOWELS
                             then ''long'' else ''short'')"
      show ?thesis
      proof (cases "traverse text pos ty pos False None")
        case (Some h)
        from traverse_endPos[OF Some] obtain e where "h_endPos h = Some e" "pos < e" by auto
        moreover have "findHoldingPosition text pos = h"
          using \<open>isConsonant text pos = Some consonant\<close> long vowel Some
          by (simp add: findHoldingPosition_def Let_def ty_def)
        ultimately show ?thesis by (simp add: afterHolding_def)
      next
        case None
        have ge: "pos \<le> skipSkipConsonants text pos" by (rule skipSkipConsonants_ge)
        show ?thesis
        proof (cases "isConsonant text (skipSkipConsonants text pos)")
          case none2: None
          with \<open>isConsonant text pos = Some consonant\<close> long vowel None assms show ?thesis
            by (simp add: findHoldingPosition_def Let_def ty_def noHolding_def)
        next
          case (Some cc)
          have "0 < length cc" using isConsonant_length[OF Some] by auto
          with ge have "pos < skipSkipConsonants text pos + length cc" by arith
          with \<open>isConsonant text pos = Some consonant\<close> long vowel None Some show ?thesis
            by (simp add: findHoldingPosition_def Let_def ty_def afterHolding_def)
        qed
      qed
    qed
  qed
qed

text \<open>The loop of \<open>findAllHoldings\<close> from index \<open>i\<close>; the result is what is still pushed.\<close>

function findAllHoldings_from :: "jsstring \<Rightarrow> nat \<Rightarrow> holding list" where
  "findAllHoldings_from text i =
     (if i < length text then
        if text ! i = 0x7C then findAllHoldings_from text (i + 1)
        else (case isConsonant text i of
                Some consonant \<Rightarrow>
                  if h_position (findHoldingPosition text i) > 0
                     \<and> h_length (findHoldingPosition text i) > 0
                  then findHoldingPosition text i
                         # findAllHoldings_from text (afterHolding (findHoldingPosition text i))
                  else findAllHoldings_from text (i + length consonant)
              | None \<Rightarrow>
                  if isSvaraMark (text ! i) then findAllHoldings_from text (i + 1)
                  else findAllHoldings_from text (i + 1))
      else [])"
  by pat_completeness auto
termination
  by (relation "measure (\<lambda>(tx, i). length tx - i)")
     (auto intro!: diff_less_mono2 afterHolding_findHoldingPosition dest: isConsonant_length)

declare findAllHoldings_from.simps [simp del]

definition findAllHoldings :: "jsstring \<Rightarrow> holding list" where
  "findAllHoldings text = findAllHoldings_from text 0"

section \<open>Pause locator (findAllPauses)\<close>

record pause =
  p_position :: nat
  p_type :: string

text \<open>The two inner loops \<open>while (nextPos < text.length && isSvaraMark(text[nextPos])) nextPos++\<close>.\<close>

function skipSvara :: "jsstring \<Rightarrow> nat \<Rightarrow> nat" where
  "skipSvara text nextPos =
     (if nextPos < length text \<and> isSvaraMark (text ! nextPos) then skipSvara text (nextPos + 1)
      else nextPos)"
  by pat_completeness auto
termination
  by (relation "measure (\<lambda>(text, nextPos). length text - nextPos)") auto

text \<open>The body of the vowel branch: the pauses pushed for the vowel found at the scan position.\<close>

definition sandhiPause :: "jsstring \<Rightarrow> nat \<Rightarrow> jsstring \<Rightarrow> pause list" where
  "sandhiPause text i vowel =
     (let nextPos = skipSvara text (i + length vowel) in
      if nextPos < length text \<and> text ! nextPos = 0x20 then
        (let nextPos' = skipSvara text (nextPos + 1) in
         case isVowel text nextPos' of
           Some nextVowel \<Rightarrow>
             (if vowel \<in> set LONG_VOWELS \<and> nextVowel \<in> set SHORT_VOWELS
              then [\<lparr>p_position = nextPos', p_type = ''long''\<rparr>]
              else [\<lparr>p_position = nextPos', p_type = ''short''\<rparr>])
         | None \<Rightarrow> [])
      else [])"

function findAllPauses_from :: "jsstring \<Rightarrow> nat \<Rightarrow> pause list" where
  "findAllPauses_from text i =
     (if i < length text then
        if isSvaraMark (text ! i) then findAllPauses_from text (i + 1)
        else if i + 2 < length text \<and> text ! i = 0x6F \<and> text ! (i + 1) = 0x1E41
                \<and> text ! (i + 2) = 0x20
          then \<lparr>p_position = i + 3, p_type = ''short''\<rparr> # findAllPauses_from text (i + 3)
        else if isVowel text i \<noteq> None
          then sandhiPause text i (the (isVowel text i))
                 @ findAllPauses_from text (i + length (the (isVowel text i)))
        else findAllPauses_from text (i + 1)
      else [])"
  by pat_completeness auto
termination
  by (relation "measure (\<lambda>(text, i). length text - i)")
     (auto simp: isVowel_def split: if_splits)

declare skipSvara.simps [simp del] findAllPauses_from.simps [simp del]

definition findAllPauses :: "jsstring \<Rightarrow> pause list" where
  "findAllPauses text = findAllPauses_from text 0"

section \<open>Script converter: Devanagari to IAST (devanagariToIAST)\<close>

text \<open>
  The four lookup objects of \<open>devanagariToIAST\<close>, as association lists from key string to
  value string; \<open>obj[key]\<close> is \<open>map_of obj key\<close>, and it is truthy exactly when it is \<open>Some\<close>
  (no value is the empty string).
\<close>

definition d2i_vowels :: "(jsstring \<times> jsstring) list" where
  "d2i_vowels =
     [([0x905], [0x61]), ([0x906], [0x101]), ([0x907], [0x69]),
      ([0x908], [0x12B]), ([0x909], [0x75]), ([0x90A], [0x16B]),
      ([0x90B], [0x1E5B]), ([0x960], [0x1E5D]), ([0x90C], [0x1E37]),
      ([0x961], [0x1E39]), ([0x90F], [0x65]), ([0x910], [0x61, 0x69]),
      ([0x913], [0x6F]), ([0x914], [0x61, 0x75]), ([0x950], [0x6F, 0x1E41])]"

definition d2i_vowelSigns :: "(jsstring \<times> jsstring) list" where
  "d2i_vowelSigns =
     [([0x93E], [0x101]), ([0x93F], [0x69]), ([0x940], [0x12B]),
      ([0x941], [0x75]), ([0x942], [0x16B]), ([0x943], [0x1E5B]),
      ([0x944], [0x1E5D]), ([0x962], [0x1E37]), ([0x963], [0x1E39]),
      ([0x947], [0x65]), ([0x948], [0x61, 0x69]), ([0x94B], [0x6F]),
      ([0x94C], [0x61, 0x75])]"

definition d2i_consonants :: "(jsstring \<times> jsstring) list" where
  "d2i_consonants =
     [([0x915], [0x6B]), ([0x916], [0x6B, 0x68]), ([0x917], [0x67]),
      ([0x918], [0x67, 0x68]), ([0x919], [0x1E45]), ([0x91A], [0x63]),
      ([0x91B], [0x63, 0x68]), ([0x91C], [0x6A]), ([0x91D], [0x6A, 0x68]),
      ([0x91E], [0xF1]), ([0x91F], [0x1E6D]), ([0x920], [0x1E6D, 0x68]),
      ([0x921], [0x1E0D]), ([0x922], [0x1E0D, 0x68]), ([0x923], [0x1E47]),
      ([0x924], [0x74]), ([0x925], [0x74, 0x68]), ([0x926], [0x64]),
      ([0x927], [0x64, 0x68]), ([0x928], [0x6E]), ([0x92A], [0x70]),
      ([0x92B], [0x70, 0x68]), ([0x92C], [0x62]), ([0x92D], [0x62, 0x68]),
      ([0x92E], [0x6D]), ([0x92F], [0x79]), ([0x930], [0x72]),
      ([0x932], [0x6C]), ([0x935], [0x76]), ([0x936], [0x15B]),
      ([0x937], [0x1E63]), ([0x938], [0x73]), ([0x939], [0x68]),
      ([0x933], [0x1E37]), ([0x915, 0x94D, 0x937], [0x6B, 0x1E63]), ([0x91C, 0x94D, 0x91E], [0x6A, 0xF1])]"

definition d2i_special :: "(jsstring \<times> jsstring) list" where
  "d2i_special =
     [([0x902], [0x1E41]), ([0x903], [0x1E25]), ([0x901], [0x6D, 0x310]),
      ([0x93D], [0x27]), ([0x964], [0x7C]), ([0x965], [0x7C, 0x7C])]"


text \<open>
  One iteration of the \<open>while\<close> loop at index \<open>i < text.length\<close>: what is appended to
  \<open>result\<close>, and the index at which the next iteration starts.
\<close>

definition devanagariToIAST_step :: "jsstring \<Rightarrow> nat \<Rightarrow> jsstring \<times> nat" where
  "devanagariToIAST_step text i =
     (let char = text ! i in
      if char = 0x950 then ([0x6F, 0x1E41], i + 1)
      else if i + 1 < length text \<and> map_of d2i_consonants [char, text ! (i + 1)] \<noteq> None then
        (let r = the (map_of d2i_consonants [char, text ! (i + 1)]); i2 = i + 2 in
         if i2 < length text then
           (case map_of d2i_vowelSigns [text ! i2] of
              Some v \<Rightarrow> (r @ v, i2 + 1)
            | None \<Rightarrow> if text ! i2 \<noteq> 0x94D then (r @ [0x61], i2) else (r, i2))
         else (r @ [0x61], i2))
      else
        (case map_of d2i_vowels [char] of
           Some v \<Rightarrow> (v, i + 1)
         | None \<Rightarrow>
           (case map_of d2i_consonants [char] of
              Some c \<Rightarrow>
                if i + 1 < length text then
                  (case map_of d2i_vowelSigns [text ! (i + 1)] of
                     Some v \<Rightarrow> (c @ v, i + 2)
                   | None \<Rightarrow>
                       if text ! (i + 1) = 0x94D then
                         (if i + 2 < length text \<and> map_of d2i_consonants [text ! (i + 2)] \<noteq> None
                          then (c, i + 2)
                          else (c, i + 2))
                       else (c @ [0x61], i + 1))
                else (c, i + 1)
            | None \<Rightarrow>
              (case map_of d2i_vowelSigns [char] of
                 Some v \<Rightarrow> (v, i + 1)
               | None \<Rightarrow>
                   if char \<noteq> 0x94D \<and> map_of d2i_special [char] \<noteq> None
                     then (the (map_of d2i_special [char]), i + 1)
                   else if char = 0x94D then ([], i + 1)
                   else ([char], i + 1)))))"

lemma devanagariToIAST_step_advances: "i < snd (devanagariToIAST_step tx i)"
  by (cases "map_of d2i_vowels [tx ! i]"; cases "map_of d2i_consonants [tx ! i]";
      cases "map_of d2i_vowelSigns [tx ! i]"; cases "map_of d2i_vowelSigns [tx ! (i + 1)]";
      cases "map_of d2i_vowelSigns [tx ! (i + 2)]")
     (simp_all add: devanagariToIAST_step_def Let_def)

function devanagariToIAST_from :: "jsstring \<Rightarrow> nat \<Rightarrow> jsstring" where
  "devanagariToIAST_from text i =
     (if i < length text
      then fst (devanagariToIAST_step text i)
             @ devanagariToIAST_from text (snd (devanagariToIAST_step text i))
      else [])"
  by pat_completeness auto
termination
  by (relation "measure (\<lambda>(tx, i). length tx - i)")
     (auto intro!: diff_less_mono2 devanagariToIAST_step_advances)

declare devanagariToIAST_from.simps [simp del]

definition devanagariToIAST :: "jsstring \<Rightarrow> jsstring" where
  "devanagariToIAST text = devanagariToIAST_from text 0"

section \<open>Script converter: IAST to Devanagari (iastToDevanagari)\<close>

definition i2d_vowels :: "(jsstring \<times> jsstring) list" where
  "i2d_vowels =
     [([0x61], [0x905]), ([0x101], [0x906]), ([0x69], [0x907]),
      ([0x12B], [0x908]), ([0x75], [0x909]), ([0x16B], [0x90A]),
      ([0x1E5B], [0x90B]), ([0x1E5D], [0x960]), ([0x1E37], [0x90C]),
      ([0x1E39], [0x961]), ([0x65], [0x90F]), ([0x61, 0x69], [0x910]),
      ([0x6F], [0x913]), ([0x61, 0x75], [0x914]), ([0x6F, 0x1E41], [0x950]),
      ([0x1E41], [0x902])]"

definition i2d_vowelSigns :: "(jsstring \<times> jsstring) list" where
  "i2d_vowelSigns =
     [([0x101], [0x93E]), ([0x69], [0x93F]), ([0x12B], [0x940]),
      ([0x75], [0x941]), ([0x16B], [0x942]), ([0x1E5B], [0x943]),
      ([0x1E5D], [0x944]), ([0x1E37], [0x962]), ([0x1E39], [0x963]),
      ([0x65], [0x947]), ([0x61, 0x69], [0x948]), ([0x6F], [0x94B]),
      ([0x61, 0x75], [0x94C])]"

definition i2d_consonants :: "(jsstring \<times> jsstring) list" where
  "i2d_consonants =
     [([0x6B], [0x915]), ([0x6B, 0x68], [0x916]), ([0x67], [0x917]),
      ([0x67, 0x68], [0x918]), ([0x1E45], [0x919]), ([0x63], [0x91A]),
      ([0x63, 0x68], [0x91B]), ([0x6A], [0x91C]), ([0x6A, 0x68], [0x91D]),
      ([0xF1], [0x91E]), ([0x1E6D], [0x91F]), ([0x1E6D, 0x68], [0x920]),
      ([0x1E0D], [0x921]), ([0x1E0D, 0x68], [0x922]), ([0x1E47], [0x923]),
      ([0x74], [0x924]), ([0x74, 0x68], [0x925]), ([0x64], [0x926]),
      ([0x64, 0x68], [0x927]), ([0x6E], [0x928]), ([0x70], [0x92A]),
      ([0x70, 0x68], [0x92B]), ([0x62], [0x92C]), ([0x62, 0x68], [0x92D]),
      ([0x6D], [0x92E]), ([0x79], [0x92F]), ([0x72], [0x930]),
      ([0x6C], [0x932]), ([0x76], [0x935]), ([0x15B], [0x936]),
      ([0x1E63], [0x937]), ([0x73], [0x938]), ([0x68], [0x939])]"

definition i2d_special :: "(jsstring \<times> jsstring) list" where
  "i2d_special =
     [([0x1E41], [0x902]), ([0x1E43], [0x902]), ([0x1E25], [0x903]),
      ([0x27], [0x93D]), ([0x30], [0x966]), ([0x31], [0x967]),
      ([0x32], [0x968]), ([0x33], [0x969]), ([0x34], [0x96A]),
      ([0x35], [0x96B]), ([0x36], [0x96C]), ([0x37], [0x96D]),
      ([0x38], [0x96E]), ([0x39], [0x96F])]"


text \<open>\<open>text.substring(a, b)\<close> for \<open>a \<le> b\<close>; both ends are clamped to the length of the text.\<close>

definition substring :: "jsstring \<Rightarrow> nat \<Rightarrow> nat \<Rightarrow> jsstring" where
  "substring text a b = take (b - a) (drop a text)"

definition isConsonantAhead :: "jsstring \<Rightarrow> nat \<Rightarrow> bool" where
  "isConsonantAhead text pos =
     (if pos \<ge> length text then False
      else if map_of i2d_consonants (substring text pos (pos + 2)) \<noteq> None then True
      else if map_of i2d_consonants [text ! pos] \<noteq> None then True
      else False)"

text \<open>
  \<open>isWordBoundary\<close> is only called with \<open>text[i]\<close> for \<open>i < text.length\<close>, a string of one
  code unit, so its first test \<open>!char\<close> is false.
\<close>

definition isWordBoundary :: "cu \<Rightarrow> bool" where
  "isWordBoundary char \<longleftrightarrow>
     isWhitespace char \<or> char = 0xA0 \<or> char = 0x202F \<or> char = 0x2009
     \<or> char \<in> {0x2E, 0x2C, 0x3B, 0x3A, 0x21, 0x3F, 0x2D, 0x2014, 0x28, 0x29, 0x7C, 0x964, 0x965}"

text \<open>
  What follows a matched consonant; \<open>i\<close> is the index after the consonant. The source has
  this block twice, after a two-unit and after a one-unit consonant. The result is what is
  appended to \<open>result\<close> and the new index.
\<close>

definition afterConsonant :: "jsstring \<Rightarrow> nat \<Rightarrow> jsstring \<times> nat" where
  "afterConsonant text i =
     (if i < length text then
        if i + 1 < length text \<and> map_of i2d_vowelSigns (substring text i (i + 2)) \<noteq> None
          then (the (map_of i2d_vowelSigns (substring text i (i + 2))), i + 2)
        else if map_of i2d_vowelSigns [text ! i] \<noteq> None
          then (the (map_of i2d_vowelSigns [text ! i]), i + 1)
        else if text ! i = 0x61 then ([], i + 1)
        else if isConsonantAhead text i \<or> isWordBoundary (text ! i) then ([0x94D], i)
        else ([], i)
      else ([0x94D], i))"

text \<open>The ten three-unit sequences of an aspirated consonant and \<open>a\<close>.\<close>

definition aspiratedA :: "jsstring list" where
  "aspiratedA =
     [[0x6B, 0x68, 0x61], [0x67, 0x68, 0x61], [0x63, 0x68, 0x61], [0x6A, 0x68, 0x61],
      [0x1E6D, 0x68, 0x61], [0x1E0D, 0x68, 0x61], [0x74, 0x68, 0x61], [0x64, 0x68, 0x61],
      [0x70, 0x68, 0x61], [0x62, 0x68, 0x61]]"

definition iastToDevanagari_step :: "jsstring \<Rightarrow> nat \<Rightarrow> jsstring \<times> nat" where
  "iastToDevanagari_step text i =
     (if i + 2 \<le> length text \<and> substring text i (i + 2) = [0x6F, 0x1E41] then ([0x950], i + 2)
      else if i + 2 < length text \<and> substring text i (i + 3) \<in> set aspiratedA
        then (the (map_of i2d_consonants (take 2 (substring text i (i + 3)))), i + 3)
      else if i + 1 < length text \<and> map_of i2d_consonants (substring text i (i + 2)) \<noteq> None
        then (the (map_of i2d_consonants (substring text i (i + 2)))
                @ fst (afterConsonant text (i + 2)),
              snd (afterConsonant text (i + 2)))
      else if i + 1 < length text \<and> map_of i2d_vowels (substring text i (i + 2)) \<noteq> None
        then (the (map_of i2d_vowels (substring text i (i + 2))), i + 2)
      else
        (case map_of i2d_consonants [text ! i] of
           Some c \<Rightarrow> (c @ fst (afterConsonant text (i + 1)), snd (afterConsonant text (i + 1)))
         | None \<Rightarrow>
           (case map_of i2d_vowels [text ! i] of
              Some v \<Rightarrow> (v, i + 1)
            | None \<Rightarrow>
              (case map_of i2d_special [text ! i] of
                 Some s \<Rightarrow> (s, i + 1)
               | None \<Rightarrow> ([text ! i], i + 1)))))"

lemma afterConsonant_advances: "i \<le> snd (afterConsonant tx i)"
  by (simp add: afterConsonant_def)

lemma iastToDevanagari_step_advances: "i < snd (iastToDevanagari_step tx i)"
  using afterConsonant_advances[of "i + 1" tx] afterConsonant_advances[of "i + 2" tx]
  by (simp add: iastToDevanagari_step_def split: option.splits)

function iastToDevanagari_from :: "jsstring \<Rightarrow> nat \<Rightarrow> jsstring" where
  "iastToDevanagari_from text i =
     (if i < length text
      then fst (iastToDevanagari_step text i)
             @ iastToDevanagari_from text (snd (iastToDevanagari_step text i))
      else [])"
  by pat_completeness auto
termination
  by (relation "measure (\<lambda>(tx, i). length tx - i)")
     (auto intro!: diff_less_mono2 iastToDevanagari_step_advances)

declare iastToDevanagari_from.simps [simp del]

definition iastToDevanagari :: "jsstring \<Rightarrow> jsstring" where
  "iastToDevanagari text = iastToDevanagari_from text 0"

lemmas converter_eval = devanagariToIAST_def devanagariToIAST_from.simps
  devanagariToIAST_step_def iastToDevanagari_def iastToDevanagari_from.simps
  iastToDevanagari_step_def afterConsonant_def isConsonantAhead_def isWordBoundary_def
  isWhitespace_def substring_def aspiratedA_def d2i_vowels_def d2i_vowelSigns_def
  d2i_consonants_def d2i_special_def i2d_vowels_def i2d_vowelSigns_def i2d_consonants_def
  i2d_special_def Let_def

section \<open>Evaluation rules\<close>

lemmas classifier_defs = isConsonant_def isVowel_def isSvaraMark_def isWhitespace_def
  SVARA_MARKS_def VOWELS_def SHORT_VOWELS_def LONG_VOWELS_def ALL_CONSONANTS_def
  TWO_CHAR_CONSONANTS_def SKIP_CONSONANTS_def

lemmas pause_eval = findAllPauses_def findAllPauses_from.simps sandhiPause_def skipSvara.simps
  Let_def classifier_defs

lemmas holding_eval = findAllHoldings_def findAllHoldings_from.simps findHoldingPosition_def
  findPreviousVowel_def findSamyuktaLength.simps traverse.simps skipToEnd.simps
  skipSkipConsonants.simps afterHolding_def noHolding_def Let_def classifier_defs

section \<open>Holding locator: threshold and positions\<close>

lemma findAllHoldings_from_positive:
  "h \<in> set (findAllHoldings_from tx i) \<Longrightarrow> 0 < h_position h \<and> 0 < h_length h"
proof (induction tx i rule: findAllHoldings_from.induct)
  case (1 tx i)
  from "1.prems" "1.IH" show ?case
    by (subst (asm) findAllHoldings_from.simps) (auto split: if_splits option.splits)
qed

lemma findHoldingPosition_short_cluster:
  "findSamyuktaLength tx pos False \<le> 1 \<Longrightarrow> findHoldingPosition tx pos = noHolding"
  by (simp add: findHoldingPosition_def split: option.splits)

lemma findAllHoldings_from_origin:
  "h \<in> set (findAllHoldings_from tx i) \<Longrightarrow>
     \<exists>j. h = findHoldingPosition tx j \<and> 2 \<le> findSamyuktaLength tx j False"
proof (induction tx i rule: findAllHoldings_from.induct)
  case (1 tx i)
  have key: "0 < h_position (findHoldingPosition tx i) \<Longrightarrow> 2 \<le> findSamyuktaLength tx i False"
    using findHoldingPosition_short_cluster[of tx i]
    by (cases "findSamyuktaLength tx i False \<le> 1") (auto simp: noHolding_def)
  from "1.prems" "1.IH" key show ?case
    by (subst (asm) findAllHoldings_from.simps) (auto split: if_splits option.splits)
qed

lemma findHoldingPosition_at_start: "findHoldingPosition tx 0 = noHolding"
  by (simp add: findHoldingPosition_def findPreviousVowel_def Let_def split: option.splits)

text \<open>
  Claim C7 (cluster threshold). A position whose computed consonant-unit count
  (\<open>findSamyuktaLength\<close> with \<open>countMarks = false\<close>, as \<open>findHoldingPosition\<close> calls it) is at
  most 1 gets the empty result \<open>{position: 0, length: 0, type: ''}\<close>, which
  \<open>findAllHoldings\<close> never pushes; and every span that \<open>findAllHoldings\<close> returns was
  computed by \<open>findHoldingPosition\<close> at a position whose count is at least 2. So no span is
  emitted for a run of exactly one consonant.
\<close>

theorem cluster_threshold:
  "(findSamyuktaLength tx pos False \<le> 1 \<longrightarrow> findHoldingPosition tx pos = noHolding)
   \<and> (\<forall>h \<in> set (findAllHoldings tx).
         \<exists>j. h = findHoldingPosition tx j \<and> 2 \<le> findSamyuktaLength tx j False)"
  using findHoldingPosition_short_cluster[of tx pos] findAllHoldings_from_origin[of _ tx 0]
  by (auto simp: findAllHoldings_def)

text \<open>
  The text \<open>aka\<close> has a run of one consonant at index 1 and gets no span; in \<open>akta\<close> the
  span on \<open>k\<close> comes from the cluster \<open>kt\<close> of two units.
\<close>

theorem cluster_threshold_witness:
  "findSamyuktaLength [0x61, 0x6B, 0x61] 1 False \<le> 1
   \<and> findHoldingPosition [0x61, 0x6B, 0x61] 1 = noHolding
   \<and> findAllHoldings [0x61, 0x6B, 0x61] = []
   \<and> findAllHoldings [0x61, 0x6B, 0x74, 0x61]
       = [\<lparr>h_position = 1, h_length = 1, h_type = ''short'', h_endPos = None\<rparr>]
   \<and> (\<exists>j. \<lparr>h_position = 1, h_length = 1, h_type = ''short'', h_endPos = None\<rparr>
            = findHoldingPosition [0x61, 0x6B, 0x74, 0x61] j
          \<and> 2 \<le> findSamyuktaLength [0x61, 0x6B, 0x74, 0x61] j False)"
proof -
  have c1: "findSamyuktaLength [0x61, 0x6B, 0x61] 1 False \<le> 1"
    by (simp add: holding_eval)
  have e1: "findAllHoldings [0x61, 0x6B, 0x61] = []"
    by (simp add: holding_eval)
  have e2: "findAllHoldings [0x61, 0x6B, 0x74, 0x61]
       = [\<lparr>h_position = 1, h_length = 1, h_type = ''short'', h_endPos = None\<rparr>]"
    by (simp add: holding_eval)
  from cluster_threshold[of "[0x61, 0x6B, 0x61]" 1] c1
  have n1: "findHoldingPosition [0x61, 0x6B, 0x61] 1 = noHolding" by blast
  from cluster_threshold[of "[0x61, 0x6B, 0x74, 0x61]" 0] e2
  have "\<exists>j. \<lparr>h_position = 1, h_length = 1, h_type = ''short'', h_endPos = None\<rparr>
            = findHoldingPosition [0x61, 0x6B, 0x74, 0x61] j
          \<and> 2 \<le> findSamyuktaLength [0x61, 0x6B, 0x74, 0x61] j False"
    by simp
  with c1 n1 e1 e2 show ?thesis by blast
qed

text \<open>
  The code units at which the look-behind of \<open>findPreviousVowel\<close> (with \<open>blockAtSpace\<close>) stops:
  a whitespace, an anusvara (U+1E41, U+1E43), a visarga (U+1E25), or the start of a vowel unit.
\<close>

definition lookBehindStop :: "jsstring \<Rightarrow> nat \<Rightarrow> bool" where
  "lookBehindStop tx i \<longleftrightarrow>
     isWhitespace (tx ! i) \<or> tx ! i = 0x1E41 \<or> tx ! i = 0x1E43 \<or> tx ! i = 0x1E25
     \<or> isVowel tx i \<noteq> None"

lemma findPreviousVowel_loop_no_stop:
  "(\<forall>i<n. \<not> lookBehindStop tx i) \<Longrightarrow>
     findPreviousVowel_loop tx True n = \<lparr>pv_vowel = [], pv_blocked = False, pv_position = -1\<rparr>"
proof (induction n)
  case 0
  show ?case by simp
next
  case (Suc n)
  from Suc.prems have "\<not> lookBehindStop tx n" by simp
  moreover from Suc have "findPreviousVowel_loop tx True n
      = \<lparr>pv_vowel = [], pv_blocked = False, pv_position = -1\<rparr>" by simp
  ultimately show ?case by (simp add: lookBehindStop_def)
qed

lemma findHoldingPosition_no_stop:
  "(\<forall>i<pos. \<not> lookBehindStop tx i) \<Longrightarrow> findHoldingPosition tx pos = noHolding"
  using findPreviousVowel_loop_no_stop[of pos tx]
  by (simp add: findHoldingPosition_def findPreviousVowel_def Let_def split: option.splits)

lemma traverse_position_ge:
  "traverse tx hp ty i passed lastB = Some h \<Longrightarrow> hp \<le> i \<Longrightarrow>
     (\<forall>lc lp. lastB = Some (lc, lp) \<longrightarrow> hp \<le> lp) \<Longrightarrow> hp \<le> h_position h"
proof (induction tx hp ty i passed lastB rule: traverse.induct)
  case (1 tx hp ty i passed lastB)
  note unf = traverse.simps[of tx hp ty i]
  from "1.prems"(1) have inb: "i < length tx"
    by (subst (asm) traverse.simps) (simp split: if_splits)
  show ?case
  proof (cases "isWhitespace (tx ! i) \<or> tx ! i = 0x0A")
    case True
    let ?l = "if \<not> passed then (case isConsonant tx hp of Some cons \<Rightarrow> Some (cons, hp)
                                | None \<Rightarrow> lastB) else lastB"
    have l: "\<forall>lc lp. ?l = Some (lc, lp) \<longrightarrow> hp \<le> lp"
      using "1.prems"(3) by (auto split: option.splits if_splits)
    from inb True "1.prems"(1) have "traverse tx hp ty (i + 1) True ?l = Some h"
      by (simp add: unf)
    from "1.IH"(1)[OF inb True this _ l] "1.prems"(2) show ?thesis by simp
  next
    case nows: False
    show ?thesis
    proof (cases "tx ! i = 0x7C")
      case True
      with inb nows "1.prems"(1) have "traverse tx hp ty (i + 1) passed lastB = Some h"
        by (simp add: unf)
      from "1.IH"(2)[OF inb nows True this _ "1.prems"(3)] "1.prems"(2) show ?thesis by simp
    next
      case nopipe: False
      show ?thesis
      proof (cases "isSvaraMark (tx ! i)")
        case True
        with inb nows nopipe "1.prems"(1) have "traverse tx hp ty (i + 1) passed lastB = Some h"
          by (simp add: unf)
        from "1.IH"(3)[OF inb nows nopipe True this _ "1.prems"(3)] "1.prems"(2)
        show ?thesis by simp
      next
        case nomark: False
        show ?thesis
        proof (cases "isConsonant tx i")
          case None
          with inb nows nopipe nomark "1.prems"(1) show ?thesis by (simp add: unf)
        next
          case (Some cons)
          show ?thesis
          proof (cases passed)
            case True
            with inb nows nopipe nomark Some "1.prems" show ?thesis
              by (auto simp: unf split: option.splits if_splits)
          next
            case False
            with inb nows nopipe nomark Some "1.prems"(1)
            have "traverse tx hp ty (i + length cons) passed lastB = Some h"
              by (simp add: unf)
            from "1.IH"(4)[OF inb nows nopipe nomark Some False this _ "1.prems"(3)] "1.prems"(2)
            show ?thesis by simp
          qed
        qed
      qed
    qed
  qed
qed

lemma findHoldingPosition_position_ge:
  assumes "0 < h_length (findHoldingPosition tx pos)"
  shows "pos \<le> h_position (findHoldingPosition tx pos)"
proof (cases "isConsonant tx pos")
  case None
  with assms show ?thesis by (simp add: findHoldingPosition_def noHolding_def)
next
  case (Some consonant)
  show ?thesis
  proof (cases "findSamyuktaLength tx pos False \<le> 1")
    case True
    with Some assms show ?thesis by (simp add: findHoldingPosition_def noHolding_def)
  next
    case long: False
    show ?thesis
    proof (cases "pv_vowel (findPreviousVowel tx pos True) = []")
      case True
      with Some long assms show ?thesis
        by (auto simp: findHoldingPosition_def noHolding_def Let_def split: if_splits)
    next
      case vowel: False
      define ty where "ty = (if pv_vowel (findPreviousVowel tx pos True) \<in> set LONG_VOWELS
                             then ''long'' else ''short'')"
      show ?thesis
      proof (cases "traverse tx pos ty pos False None")
        case (Some h)
        from traverse_position_ge[OF Some] have "pos \<le> h_position h" by simp
        moreover have "findHoldingPosition tx pos = h"
          using \<open>isConsonant tx pos = Some consonant\<close> long vowel Some
          by (simp add: findHoldingPosition_def Let_def ty_def)
        ultimately show ?thesis by simp
      next
        case None
        have ge: "pos \<le> skipSkipConsonants tx pos" by (rule skipSkipConsonants_ge)
        show ?thesis
        proof (cases "isConsonant tx (skipSkipConsonants tx pos)")
          case none2: None
          with \<open>isConsonant tx pos = Some consonant\<close> long vowel None assms show ?thesis
            by (simp add: findHoldingPosition_def Let_def ty_def noHolding_def)
        next
          case (Some cc)
          with \<open>isConsonant tx pos = Some consonant\<close> long vowel None ge show ?thesis
            by (simp add: findHoldingPosition_def Let_def ty_def)
        qed
      qed
    qed
  qed
qed

lemma findAllHoldings_from_preceded:
  "h \<in> set (findAllHoldings_from tx i) \<Longrightarrow> \<exists>j < h_position h. lookBehindStop tx j"
proof -
  assume "h \<in> set (findAllHoldings_from tx i)"
  from findAllHoldings_from_origin[OF this] findAllHoldings_from_positive[OF this]
  obtain j where j: "h = findHoldingPosition tx j" and pos: "0 < h_length h" by blast
  from pos j have ge: "j \<le> h_position h" using findHoldingPosition_position_ge[of tx j] by simp
  have "\<not> (\<forall>i<j. \<not> lookBehindStop tx i)"
  proof
    assume "\<forall>i<j. \<not> lookBehindStop tx i"
    then have "findHoldingPosition tx j = noHolding" by (rule findHoldingPosition_no_stop)
    with j pos show False by (simp add: noHolding_def)
  qed
  then obtain i where "i < j" "lookBehindStop tx i" by blast
  with ge show ?thesis by (intro exI[of _ i]) simp
qed

text \<open>
  Claim C10 (no span at position 0), amended. Every span returned by \<open>findAllHoldings\<close> has
  \<open>position \<ge> 1\<close> and \<open>length \<ge> 1\<close> and is preceded, somewhere before its position, by a
  whitespace, a vowel, an anusvara or a visarga. The start of the text is not a word
  boundary: \<open>findHoldingPosition\<close> at index 0 returns the empty result, and so it does at
  every position before which the text has none of these code units. (What the claim adds,
  that a cluster starting at the first code unit is never annotated, does not follow: a
  later consonant of that cluster is annotated once a whitespace, an anusvara or a visarga
  lies before it.)
\<close>

theorem no_holding_at_position_zero:
  "(\<forall>h \<in> set (findAllHoldings tx).
       1 \<le> h_position h \<and> 1 \<le> h_length h \<and> (\<exists>j < h_position h. lookBehindStop tx j))
   \<and> findHoldingPosition tx 0 = noHolding
   \<and> ((\<forall>i<pos. \<not> lookBehindStop tx i) \<longrightarrow> findHoldingPosition tx pos = noHolding)"
  using findAllHoldings_from_positive[of _ tx 0] findHoldingPosition_at_start[of tx]
    findAllHoldings_from_preceded[of _ tx 0] findHoldingPosition_no_stop[of pos tx]
  by (auto simp: findAllHoldings_def Suc_le_eq)

text \<open>
  In \<open>kta\<close> the cluster \<open>kt\<close> starts the text and nothing is returned, at index 0 or at
  index 1; in \<open>akta\<close> the same cluster follows a vowel and the span is at position 1.
\<close>

theorem no_holding_at_position_zero_witness:
  "findAllHoldings [0x6B, 0x74, 0x61] = []
   \<and> findHoldingPosition [0x6B, 0x74, 0x61] 0 = noHolding
   \<and> \<not> lookBehindStop [0x6B, 0x74, 0x61] 0
   \<and> findHoldingPosition [0x6B, 0x74, 0x61] 1 = noHolding
   \<and> \<lparr>h_position = 1, h_length = 1, h_type = ''short'', h_endPos = None\<rparr>
        \<in> set (findAllHoldings [0x61, 0x6B, 0x74, 0x61])
   \<and> 1 \<le> h_position \<lparr>h_position = 1, h_length = 1, h_type = ''short'', h_endPos = None\<rparr>
   \<and> 1 \<le> h_length \<lparr>h_position = 1, h_length = 1, h_type = ''short'', h_endPos = None\<rparr>
   \<and> (\<exists>j < h_position \<lparr>h_position = 1, h_length = 1, h_type = ''short'', h_endPos = None\<rparr>.
         lookBehindStop [0x61, 0x6B, 0x74, 0x61] j)"
proof -
  have e1: "findAllHoldings [0x6B, 0x74, 0x61] = []"
    by (simp add: holding_eval)
  have e2: "\<lparr>h_position = 1, h_length = 1, h_type = ''short'', h_endPos = None\<rparr>
        \<in> set (findAllHoldings [0x61, 0x6B, 0x74, 0x61])"
    by (simp add: holding_eval)
  have n0: "\<not> lookBehindStop [0x6B, 0x74, 0x61] 0"
    by (simp add: lookBehindStop_def classifier_defs)
  then have ns: "\<forall>i<1. \<not> lookBehindStop [0x6B, 0x74, 0x61] i" by simp
  from no_holding_at_position_zero[of "[0x6B, 0x74, 0x61]" 1] ns
  have z: "findHoldingPosition [0x6B, 0x74, 0x61] 0 = noHolding"
    and z1: "findHoldingPosition [0x6B, 0x74, 0x61] 1 = noHolding" by blast+
  from no_holding_at_position_zero[of "[0x61, 0x6B, 0x74, 0x61]" 0] e2
  have "1 \<le> h_position \<lparr>h_position = 1, h_length = 1, h_type = ''short'', h_endPos = None\<rparr>
   \<and> 1 \<le> h_length \<lparr>h_position = 1, h_length = 1, h_type = ''short'', h_endPos = None\<rparr>
   \<and> (\<exists>j < h_position \<lparr>h_position = 1, h_length = 1, h_type = ''short'', h_endPos = None\<rparr>.
         lookBehindStop [0x61, 0x6B, 0x74, 0x61] j)"
    by blast
  with e1 e2 n0 z z1 show ?thesis by blast
qed

text \<open>
  Claim C10, as the claim states it, fails on \<open>k tra\<close>: the cluster that starts at the first
  code unit has three consonant units, and its \<open>t\<close> at index 2 is annotated, because the
  whitespace before it makes it word-initial. It also fails on U+1E41 \<open>kta\<close>: the anusvara
  is a consonant unit of the cluster at index 0 and is what the look-behind from \<open>k\<close>
  finds, so \<open>k\<close> at index 1 is annotated.
\<close>

theorem first_cluster_annotated_after_boundary:
  "isConsonant [0x6B, 0x20, 0x74, 0x72, 0x61] 0 = Some [0x6B]
   \<and> findSamyuktaLength [0x6B, 0x20, 0x74, 0x72, 0x61] 0 False = 3
   \<and> findAllHoldings [0x6B, 0x20, 0x74, 0x72, 0x61]
       = [\<lparr>h_position = 2, h_length = 1, h_type = ''short'', h_endPos = None\<rparr>]
   \<and> isConsonant [0x1E41, 0x6B, 0x74, 0x61] 0 = Some [0x1E41]
   \<and> findSamyuktaLength [0x1E41, 0x6B, 0x74, 0x61] 0 False = 3
   \<and> findAllHoldings [0x1E41, 0x6B, 0x74, 0x61]
       = [\<lparr>h_position = 1, h_length = 1, h_type = ''short'', h_endPos = None\<rparr>]"
  by (simp add: holding_eval)

section \<open>Pause locator\<close>

text \<open>
  Claim C4, as the claim states it, fails on \<open>r(a-macron)ma iti\<close>: the vowel before the space is
  the short \<open>a\<close>, so the pause after the space is not \<open>long\<close>.
\<close>

theorem sandhi_pause_rama_iti_not_long:
  "findAllPauses [0x72, 0x101, 0x6D, 0x61, 0x20, 0x69, 0x74, 0x69]
     \<noteq> [\<lparr>p_position = 5, p_type = ''long''\<rparr>]"
  by (simp add: pause_eval)

text \<open>
  Claim C4 (sandhi pause examples), amended. \<open>findAllPauses\<close> of \<open>r(a-macron)ma iti\<close> is exactly
  one pause of kind \<open>short\<close> at index 5, right after the space: the word-final vowel of the
  first word is the short \<open>a\<close>. \<open>nara iti\<close> gives exactly one \<open>short\<close> pause at index 5
  too. The kind \<open>long\<close> needs a long vowel directly before the space, as in \<open>r(a-macron)m(a-macron) iti\<close>,
  which gives exactly one \<open>long\<close> pause at index 5.
\<close>

theorem sandhi_pause_examples:
  "findAllPauses [0x72, 0x101, 0x6D, 0x61, 0x20, 0x69, 0x74, 0x69]
     = [\<lparr>p_position = 5, p_type = ''short''\<rparr>]
   \<and> findAllPauses [0x6E, 0x61, 0x72, 0x61, 0x20, 0x69, 0x74, 0x69]
     = [\<lparr>p_position = 5, p_type = ''short''\<rparr>]
   \<and> findAllPauses [0x72, 0x101, 0x6D, 0x101, 0x20, 0x69, 0x74, 0x69]
     = [\<lparr>p_position = 5, p_type = ''long''\<rparr>]"
  by (simp add: pause_eval)

section \<open>Normalizer: idempotence\<close>

lemma replaceAll_absent:
  "pat \<noteq> [] \<Longrightarrow> \<not> sublist pat xs \<Longrightarrow> replaceAll pat rep xs = xs"
proof (induction pat rep xs rule: replaceAll.induct)
  case (1 pat rep)
  show ?case by simp
next
  case (2 pat rep x xs)
  have np: "take (length pat) (x # xs) \<noteq> pat"
  proof
    assume "take (length pat) (x # xs) = pat"
    then have "prefix pat (x # xs)" by (metis take_is_prefix)
    then have "sublist pat (x # xs)" by (rule prefix_imp_sublist)
    with "2.prems" show False by simp
  qed
  from "2.prems" have "\<not> sublist pat xs" by (meson sublist_Cons_right)
  with "2.IH"(2) "2.prems" np have "replaceAll pat rep xs = xs" by simp
  with np show ?case by simp
qed

lemma prefix_replaceAll:
  "z \<notin> set q \<Longrightarrow> prefix q (replaceAll pat [z] ys) \<Longrightarrow> prefix q ys"
proof (induction pat "[z]" ys arbitrary: q rule: replaceAll.induct)
  case (1 pat)
  then show ?case by simp
next
  case (2 pat x xs)
  show ?case
  proof (cases "pat \<noteq> [] \<and> take (length pat) (x # xs) = pat")
    case True
    with "2.prems"(2) have "prefix q (z # replaceAll pat [z] (drop (length pat) (x # xs)))"
      by simp
    with "2.prems"(1) have "q = []" by (cases q) auto
    then show ?thesis by simp
  next
    case False
    with "2.prems"(2) have p: "prefix q (x # replaceAll pat [z] xs)" by auto
    show ?thesis
    proof (cases q)
      case Nil
      then show ?thesis by simp
    next
      case (Cons y q')
      with p have "y = x" "prefix q' (replaceAll pat [z] xs)" by auto
      moreover from Cons "2.prems"(1) have "z \<notin> set q'" by simp
      ultimately have "prefix q' xs" using "2.hyps"(2)[OF False] by blast
      with Cons \<open>y = x\<close> show ?thesis by simp
    qed
  qed
qed

lemma replaceAll_no_new:
  "z \<notin> set q \<Longrightarrow> \<not> sublist q ys \<Longrightarrow> \<not> sublist q (replaceAll pat [z] ys)"
proof (induction pat "[z]" ys rule: replaceAll.induct)
  case (1 pat)
  then show ?case by simp
next
  case (2 pat x xs)
  from "2.prems"(2) have qne: "q \<noteq> []" by auto
  show ?case
  proof (cases "pat \<noteq> [] \<and> take (length pat) (x # xs) = pat")
    case True
    have "sublist (drop (length pat) (x # xs)) (x # xs)"
      by (rule suffix_imp_sublist) (rule suffix_drop)
    with "2.prems"(2) have "\<not> sublist q (drop (length pat) (x # xs))"
      by (meson sublist_order.order_trans)
    with "2.hyps"(1)[OF True "2.prems"(1)]
    have ih: "\<not> sublist q (replaceAll pat [z] (drop (length pat) (x # xs)))" by blast
    have "\<not> prefix q (z # replaceAll pat [z] (drop (length pat) (x # xs)))"
      using "2.prems"(1) qne by (cases q) auto
    with ih True show ?thesis by (simp add: sublist_Cons_right)
  next
    case False
    from "2.prems"(2) have "\<not> sublist q xs" by (meson sublist_Cons_right)
    with "2.hyps"(2)[OF False "2.prems"(1)] have ih: "\<not> sublist q (replaceAll pat [z] xs)"
      by blast
    have "\<not> prefix q (x # replaceAll pat [z] xs)"
    proof
      assume "prefix q (x # replaceAll pat [z] xs)"
      with False have "prefix q (replaceAll pat [z] (x # xs))" by auto
      from prefix_replaceAll[OF "2.prems"(1) this] have "sublist q (x # xs)"
        by (rule prefix_imp_sublist)
      with "2.prems"(2) show False by simp
    qed
    with ih False show ?thesis by (auto simp: sublist_Cons_right)
  qed
qed

lemma replaceAll_removes:
  "pat \<noteq> [] \<Longrightarrow> z \<notin> set pat \<Longrightarrow> \<not> sublist pat (replaceAll pat [z] ys)"
proof (induction pat "[z]" ys rule: replaceAll.induct)
  case (1 pat)
  then show ?case by simp
next
  case (2 pat x xs)
  show ?case
  proof (cases "pat \<noteq> [] \<and> take (length pat) (x # xs) = pat")
    case True
    from "2.hyps"(1)[OF True "2.prems"]
    have ih: "\<not> sublist pat (replaceAll pat [z] (drop (length pat) (x # xs)))" .
    have "\<not> prefix pat (z # replaceAll pat [z] (drop (length pat) (x # xs)))"
      using "2.prems" by (cases pat) auto
    with ih True show ?thesis by (simp add: sublist_Cons_right)
  next
    case False
    from "2.hyps"(2)[OF False "2.prems"] have ih: "\<not> sublist pat (replaceAll pat [z] xs)" .
    have "\<not> prefix pat (x # replaceAll pat [z] xs)"
    proof
      assume "prefix pat (x # replaceAll pat [z] xs)"
      with False have "prefix pat (replaceAll pat [z] (x # xs))" by auto
      from prefix_replaceAll[OF "2.prems"(2) this] have "prefix pat (x # xs)" .
      then have "take (length pat) (x # xs) = pat"
        by (metis append_eq_conv_conj prefix_def)
      with False "2.prems"(1) show False by simp
    qed
    with ih False show ?thesis by (auto simp: sublist_Cons_right)
  qed
qed


lemma set_replaceAll: "set (replaceAll pat rep xs) \<subseteq> set xs \<union> set rep"
proof (induction pat rep xs rule: replaceAll.induct)
  case (1 pat rep)
  show ?case by simp
next
  case (2 pat rep x xs)
  show ?case
  proof (cases "pat \<noteq> [] \<and> take (length pat) (x # xs) = pat")
    case True
    have "set (drop (length pat) (x # xs)) \<subseteq> set (x # xs)" by (rule set_drop_subset)
    with "2.IH"(1)[OF True] True show ?thesis by auto
  next
    case False
    with "2.IH"(2)[OF False] show ?thesis by auto
  qed
qed

text \<open>The replacements of \<open>preProcessRawText\<close> as data: pattern and replacing code unit, in order.\<close>

definition normSteps :: "(jsstring \<times> cu) list" where
  "normSteps =
     [([0x951], 0x30D), ([0x952], 0x331), ([0x332], 0x331), ([0x320], 0x331),
      ([0x321], 0x331), ([0x1CDA], 0x30E), ([0x341], 0x30E), ([0x1E43], 0x1E41),
      ([0x14D], 0x6F), ([0x113], 0x65),
      ([0x28, 0x67, 0x29, 0x6D], 0x1E41), ([0x28, 0x67, 0x29, 0x1E41], 0x1E41),
      ([0x28, 0x67, 0x331, 0x29, 0x1E41], 0x1E41), ([0x28, 0x67, 0x331, 0x29, 0x6D], 0x1E41)]"

fun runSteps :: "(jsstring \<times> cu) list \<Rightarrow> jsstring \<Rightarrow> jsstring" where
  "runSteps [] t = t"
| "runSteps ((q, z) # steps) t = runSteps steps (replaceAll q [z] t)"

lemma preProcessRawText_runSteps: "preProcessRawText t = runSteps normSteps t"
  by (simp add: preProcessRawText_def normSteps_def)

lemma runSteps_append: "runSteps (xs @ ys) t = runSteps ys (runSteps xs t)"
  by (induction xs t rule: runSteps.induct) auto

lemma runSteps_no_new:
  "\<forall>(p, z) \<in> set steps. z \<notin> set q \<Longrightarrow> \<not> sublist q t \<Longrightarrow> \<not> sublist q (runSteps steps t)"
proof (induction steps t rule: runSteps.induct)
  case (1 t)
  then show ?case by simp
next
  case (2 p z steps t)
  from "2.prems"(1) have "z \<notin> set q" by simp
  from replaceAll_no_new[OF this "2.prems"(2)] have "\<not> sublist q (replaceAll p [z] t)" .
  with "2.IH" "2.prems"(1) show ?case by simp
qed

lemma runSteps_removes:
  assumes "steps = before @ (q, z) # later" "q \<noteq> []" "z \<notin> set q"
    "\<forall>(p, z') \<in> set later. z' \<notin> set q"
  shows "\<not> sublist q (runSteps steps t)"
proof -
  have "\<not> sublist q (replaceAll q [z] (runSteps before t))"
    using assms(2,3) by (rule replaceAll_removes)
  then have "\<not> sublist q (runSteps later (replaceAll q [z] (runSteps before t)))"
    using assms(4) by (intro runSteps_no_new)
  then show ?thesis by (simp add: assms(1) runSteps_append)
qed

lemma runSteps_absent:
  "\<forall>(q, z) \<in> set steps. q \<noteq> [] \<and> \<not> sublist q t \<Longrightarrow> runSteps steps t = t"
proof (induction steps t rule: runSteps.induct)
  case (1 t)
  show ?case by simp
next
  case (2 q z steps t)
  from "2.prems" have "q \<noteq> []" "\<not> sublist q t" by auto
  then have "replaceAll q [z] t = t" by (rule replaceAll_absent)
  with "2.IH" "2.prems" show ?case by simp
qed

lemma set_runSteps: "set (runSteps steps t) \<subseteq> set t \<union> snd ` set steps"
proof (induction steps t rule: runSteps.induct)
  case (1 t)
  show ?case by simp
next
  case (2 q z steps t)
  have "set (replaceAll q [z] t) \<subseteq> set t \<union> {z}" using set_replaceAll[of q "[z]" t] by simp
  with "2.IH" show ?case by auto
qed

lemma runSteps_removes_nth:
  assumes "k < length steps" "fst (steps ! k) \<noteq> []" "snd (steps ! k) \<notin> set (fst (steps ! k))"
    "\<forall>(p, z') \<in> set (drop (Suc k) steps). z' \<notin> set (fst (steps ! k))"
  shows "\<not> sublist (fst (steps ! k)) (runSteps steps t)"
proof (rule runSteps_removes)
  show "steps = take k steps @ (fst (steps ! k), snd (steps ! k)) # drop (Suc k) steps"
    using assms(1) by (simp add: id_take_nth_drop)
qed (use assms in auto)

lemma normalized_free:
  assumes "k < 14" "k \<noteq> 11" "k \<noteq> 12"
  shows "\<not> sublist (fst (normSteps ! k)) (preProcessRawText t)"
proof -
  from assms have "k \<in> {0, 1, 2, 3, 4, 5, 6, 7, 8, 9, 10, 13}" by simp arith
  then show ?thesis
    unfolding preProcessRawText_runSteps
    by (elim insertE emptyE; intro runSteps_removes_nth) (simp_all add: normSteps_def)
qed

lemma normalized_fixed:
  assumes "\<not> sublist [0x28, 0x67, 0x29, 0x1E41] (preProcessRawText t)"
    and "\<not> sublist [0x28, 0x67, 0x331, 0x29, 0x1E41] (preProcessRawText t)"
  shows "preProcessRawText (preProcessRawText t) = preProcessRawText t"
proof -
  have "\<forall>k < length normSteps.
          fst (normSteps ! k) \<noteq> [] \<and> \<not> sublist (fst (normSteps ! k)) (preProcessRawText t)"
  proof (intro allI impI)
    fix k assume "k < length normSteps"
    then have k: "k < 14" by (simp add: normSteps_def)
    have ne: "fst (normSteps ! k) \<noteq> []"
    proof -
      from k have "k \<in> {0, 1, 2, 3, 4, 5, 6, 7, 8, 9, 10, 11, 12, 13}" by simp arith
      then show ?thesis by (elim insertE emptyE) (simp_all add: normSteps_def)
    qed
    show "fst (normSteps ! k) \<noteq> [] \<and> \<not> sublist (fst (normSteps ! k)) (preProcessRawText t)"
    proof (cases "k = 11 \<or> k = 12")
      case True
      with assms ne show ?thesis by (auto simp: normSteps_def)
    next
      case False
      with k ne normalized_free[of k t] show ?thesis by simp
    qed
  qed
  then have "\<forall>(q, z) \<in> set normSteps. q \<noteq> [] \<and> \<not> sublist q (preProcessRawText t)"
    by (auto simp: in_set_conv_nth) (metis fst_conv)+
  then show ?thesis
    by (subst preProcessRawText_runSteps) (rule runSteps_absent)
qed

lemma normalized_paren:
  assumes "0x28 \<notin> set t"
  shows "0x28 \<notin> set (preProcessRawText t)"
proof -
  have "set (preProcessRawText t) \<subseteq> set t \<union> snd ` set normSteps"
    unfolding preProcessRawText_runSteps by (rule set_runSteps)
  moreover have "(0x28::nat) \<notin> snd ` set normSteps" by (simp add: normSteps_def)
  ultimately show ?thesis using assms by blast
qed

text \<open>
  Claim C8 (normalizer idempotence), amended. \<open>normalize(normalize(t)) = normalize(t)\<close>
  holds for every text \<open>t\<close> whose normalized form has no occurrence left of the idioms
  \<open>(g)\<close> + U+1E41 and \<open>(g\<close> + U+0331 + \<open>)\<close> + U+1E41; in particular it holds for every \<open>t\<close>
  without an opening parenthesis. (Each replacement runs once, left to right, and the
  four idiom replacements are not repeated, so a bracketed group directly before an idiom
  leaves a new idiom behind.)
\<close>

theorem normalizer_idempotent_without_residue:
  "(\<not> sublist [0x28, 0x67, 0x29, 0x1E41] (preProcessRawText t)
      \<and> \<not> sublist [0x28, 0x67, 0x331, 0x29, 0x1E41] (preProcessRawText t)
      \<longrightarrow> preProcessRawText (preProcessRawText t) = preProcessRawText t)
   \<and> (0x28 \<notin> set t \<longrightarrow> preProcessRawText (preProcessRawText t) = preProcessRawText t)"
proof (intro conjI impI)
  assume "\<not> sublist [0x28, 0x67, 0x29, 0x1E41] (preProcessRawText t)
      \<and> \<not> sublist [0x28, 0x67, 0x331, 0x29, 0x1E41] (preProcessRawText t)"
  then show "preProcessRawText (preProcessRawText t) = preProcessRawText t"
    using normalized_fixed by blast
next
  assume "0x28 \<notin> set t"
  then have np: "0x28 \<notin> set (preProcessRawText t)" by (rule normalized_paren)
  have "\<not> sublist [0x28, 0x67, 0x29, 0x1E41] (preProcessRawText t)"
  proof
    assume "sublist [0x28, 0x67, 0x29, 0x1E41] (preProcessRawText t)"
    then have "set [0x28, 0x67, 0x29, 0x1E41] \<subseteq> set (preProcessRawText t)"
      by (rule set_mono_sublist)
    with np show False by simp
  qed
  moreover have "\<not> sublist [0x28, 0x67, 0x331, 0x29, 0x1E41] (preProcessRawText t)"
  proof
    assume "sublist [0x28, 0x67, 0x331, 0x29, 0x1E41] (preProcessRawText t)"
    then have "set [0x28, 0x67, 0x331, 0x29, 0x1E41] \<subseteq> set (preProcessRawText t)"
      by (rule set_mono_sublist)
    with np show False by simp
  qed
  ultimately show "preProcessRawText (preProcessRawText t) = preProcessRawText t"
    by (rule normalized_fixed)
qed

lemmas normalizer_eval = preProcessRawText_def Let_def

text \<open>
  Claim C8, as the claim states it, fails on \<open>(g)(g)\<close> + U+1E41: the first pass gives
  \<open>(g)\<close> + U+1E41, the second pass gives U+1E41.
\<close>

theorem normalizer_not_idempotent:
  "preProcessRawText (preProcessRawText [0x28, 0x67, 0x29, 0x28, 0x67, 0x29, 0x1E41])
     \<noteq> preProcessRawText [0x28, 0x67, 0x29, 0x28, 0x67, 0x29, 0x1E41]"
  by (simp add: normalizer_eval)

text \<open>
  The text \<open>a\<close> U+1E43 U+0952 \<open>(g)m\<close> is normalized to \<open>a\<close> U+1E41 U+0331 U+1E41, which
  has no idiom left and is a fixed point; \<open>a\<close> U+1E43 U+0952 has no parenthesis.
\<close>

theorem normalizer_idempotent_witness:
  "\<not> sublist [0x28, 0x67, 0x29, 0x1E41] (preProcessRawText [0x61, 0x1E43, 0x952, 0x28, 0x67, 0x29, 0x6D])
   \<and> \<not> sublist [0x28, 0x67, 0x331, 0x29, 0x1E41] (preProcessRawText [0x61, 0x1E43, 0x952, 0x28, 0x67, 0x29, 0x6D])
   \<and> preProcessRawText [0x61, 0x1E43, 0x952, 0x28, 0x67, 0x29, 0x6D] = [0x61, 0x1E41, 0x331, 0x1E41]
   \<and> preProcessRawText (preProcessRawText [0x61, 0x1E43, 0x952, 0x28, 0x67, 0x29, 0x6D])
       = preProcessRawText [0x61, 0x1E43, 0x952, 0x28, 0x67, 0x29, 0x6D]
   \<and> 0x28 \<notin> set [0x61, 0x1E43, 0x952::nat]
   \<and> preProcessRawText (preProcessRawText [0x61, 0x1E43, 0x952])
       = preProcessRawText [0x61, 0x1E43, 0x952]"
proof -
  have e: "preProcessRawText [0x61, 0x1E43, 0x952, 0x28, 0x67, 0x29, 0x6D] = [0x61, 0x1E41, 0x331, 0x1E41]"
    by (simp add: normalizer_eval)
  have s1: "\<not> sublist [0x28, 0x67, 0x29, 0x1E41] (preProcessRawText [0x61, 0x1E43, 0x952, 0x28, 0x67, 0x29, 0x6D])"
    by (simp add: e sublist_Cons_right)
  have s2: "\<not> sublist [0x28, 0x67, 0x331, 0x29, 0x1E41] (preProcessRawText [0x61, 0x1E43, 0x952, 0x28, 0x67, 0x29, 0x6D])"
    by (simp add: e sublist_Cons_right)
  have p: "0x28 \<notin> set [0x61, 0x1E43, 0x952::nat]" by simp
  from normalizer_idempotent_without_residue[of "[0x61, 0x1E43, 0x952, 0x28, 0x67, 0x29, 0x6D]"] s1 s2
  have i1: "preProcessRawText (preProcessRawText [0x61, 0x1E43, 0x952, 0x28, 0x67, 0x29, 0x6D])
       = preProcessRawText [0x61, 0x1E43, 0x952, 0x28, 0x67, 0x29, 0x6D]" by blast
  from normalizer_idempotent_without_residue[of "[0x61, 0x1E43, 0x952]"] p
  have i2: "preProcessRawText (preProcessRawText [0x61, 0x1E43, 0x952])
       = preProcessRawText [0x61, 0x1E43, 0x952]" by blast
  from e s1 s2 p i1 i2 show ?thesis by blast
qed

section \<open>Pause locator: the general rule\<close>

text \<open>The indices that the loop variable of \<open>findAllPauses\<close> takes.\<close>

inductive pauseScanAt :: "jsstring \<Rightarrow> nat \<Rightarrow> bool" for tx :: jsstring where
  start: "pauseScanAt tx 0"
| mark: "pauseScanAt tx i \<Longrightarrow> i < length tx \<Longrightarrow> isSvaraMark (tx ! i) \<Longrightarrow> pauseScanAt tx (i + 1)"
| om: "pauseScanAt tx i \<Longrightarrow> i < length tx \<Longrightarrow> \<not> isSvaraMark (tx ! i) \<Longrightarrow>
       i + 2 < length tx \<and> tx ! i = 0x6F \<and> tx ! (i + 1) = 0x1E41 \<and> tx ! (i + 2) = 0x20 \<Longrightarrow>
       pauseScanAt tx (i + 3)"
| vowel: "pauseScanAt tx i \<Longrightarrow> i < length tx \<Longrightarrow> \<not> isSvaraMark (tx ! i) \<Longrightarrow>
       \<not> (i + 2 < length tx \<and> tx ! i = 0x6F \<and> tx ! (i + 1) = 0x1E41 \<and> tx ! (i + 2) = 0x20) \<Longrightarrow>
       isVowel tx i = Some v \<Longrightarrow> pauseScanAt tx (i + length v)"
| other: "pauseScanAt tx i \<Longrightarrow> i < length tx \<Longrightarrow> \<not> isSvaraMark (tx ! i) \<Longrightarrow>
       \<not> (i + 2 < length tx \<and> tx ! i = 0x6F \<and> tx ! (i + 1) = 0x1E41 \<and> tx ! (i + 2) = 0x20) \<Longrightarrow>
       isVowel tx i = None \<Longrightarrow> pauseScanAt tx (i + 1)"

lemma pauseScanAt_subset:
  "pauseScanAt tx i \<Longrightarrow> set (findAllPauses_from tx i) \<subseteq> set (findAllPauses tx)"
proof (induction rule: pauseScanAt.induct)
  case start
  show ?case by (simp add: findAllPauses_def)
next
  case (mark i)
  then show ?case by (subst (asm) findAllPauses_from.simps) simp
next
  case (om i)
  then show ?case by (subst (asm) findAllPauses_from.simps) auto
next
  case (vowel i v)
  then show ?case by (subst (asm) findAllPauses_from.simps) auto
next
  case (other i)
  then show ?case by (subst (asm) findAllPauses_from.simps) auto
qed

lemma isVowel_not_mark: "isVowel tx i = Some v \<Longrightarrow> \<not> isSvaraMark (tx ! i)"
  by (auto simp: classifier_defs split: if_splits)

lemma skipSvara_stay: "i < length tx \<Longrightarrow> \<not> isSvaraMark (tx ! i) \<Longrightarrow> skipSvara tx i = i"
  by (subst skipSvara.simps) simp

lemma sandhiPause_hiatus:
  assumes "skipSvara tx (i + length v) < length tx"
    and "tx ! skipSvara tx (i + length v) = 0x20"
    and "isVowel tx (skipSvara tx (skipSvara tx (i + length v) + 1)) = Some v2"
  shows "sandhiPause tx i v =
           [\<lparr>p_position = skipSvara tx (skipSvara tx (i + length v) + 1),
             p_type = (if v \<in> set LONG_VOWELS \<and> v2 \<in> set SHORT_VOWELS then ''long''
                       else ''short'')\<rparr>]"
  using assms by (simp add: sandhiPause_def Let_def)

text \<open>
  Claim C5 (general sandhi pause rule), amended. For every text, whenever the scan of
  \<open>findAllPauses\<close> is at a vowel unit that is followed, after skipping tone marks, by the
  space character U+0020, which is followed, after skipping tone marks, by another vowel
  unit, \<open>findAllPauses\<close> returns a pause at the index of that second vowel unit (right after
  the space and the tone marks that follow it), of kind \<open>long\<close> if the first vowel is in
  \<open>LONG_VOWELS\<close> and the second in \<open>SHORT_VOWELS\<close>, and of kind \<open>short\<close> otherwise. Only
  U+0020 is a word boundary for the pause locator.
\<close>

theorem sandhi_pause_rule:
  assumes "pauseScanAt tx i"
    and "isVowel tx i = Some v"
    and "skipSvara tx (i + length v) < length tx"
    and "tx ! skipSvara tx (i + length v) = 0x20"
    and "isVowel tx (skipSvara tx (skipSvara tx (i + length v) + 1)) = Some v2"
  shows "\<lparr>p_position = skipSvara tx (skipSvara tx (i + length v) + 1),
          p_type = (if v \<in> set LONG_VOWELS \<and> v2 \<in> set SHORT_VOWELS then ''long''
                    else ''short'')\<rparr> \<in> set (findAllPauses tx)"
proof -
  from assms(2) have inb: "i < length tx" by (auto simp: isVowel_def split: if_splits)
  have nomark: "\<not> isSvaraMark (tx ! i)" using assms(2) by (rule isVowel_not_mark)
  have noom: "\<not> (i + 2 < length tx \<and> tx ! i = 0x6F \<and> tx ! (i + 1) = 0x1E41 \<and> tx ! (i + 2) = 0x20)"
  proof
    assume om: "i + 2 < length tx \<and> tx ! i = 0x6F \<and> tx ! (i + 1) = 0x1E41 \<and> tx ! (i + 2) = 0x20"
    then have v: "v = [0x6F]" using assms(2) by (auto simp: classifier_defs split: if_splits)
    from om have "\<not> isSvaraMark (tx ! (i + 1))" by (simp add: classifier_defs)
    with om have "skipSvara tx (i + 1) = i + 1" by (intro skipSvara_stay) auto
    with v assms(4) om show False by simp
  qed
  from inb nomark noom assms(2)
  have "findAllPauses_from tx i = sandhiPause tx i v @ findAllPauses_from tx (i + length v)"
    by (subst findAllPauses_from.simps) auto
  moreover note sandhiPause_hiatus[OF assms(3,4,5)]
  ultimately have "\<lparr>p_position = skipSvara tx (skipSvara tx (i + length v) + 1),
          p_type = (if v \<in> set LONG_VOWELS \<and> v2 \<in> set SHORT_VOWELS then ''long''
                    else ''short'')\<rparr> \<in> set (findAllPauses_from tx i)"
    by simp
  with pauseScanAt_subset[OF assms(1)] show ?thesis by blast
qed

text \<open>
  The text U+0101 U+030D U+0020 \<open>i\<close> (long a with a tone mark, a space, short i): the pause
  is \<open>long\<close>, at index 3.
\<close>

theorem sandhi_pause_rule_witness:
  "pauseScanAt [0x101, 0x30D, 0x20, 0x69] 0
   \<and> isVowel [0x101, 0x30D, 0x20, 0x69] 0 = Some [0x101]
   \<and> skipSvara [0x101, 0x30D, 0x20, 0x69] (0 + length [0x101::nat]) = 2
   \<and> [0x101, 0x30D, 0x20, 0x69] ! 2 = (0x20::nat)
   \<and> isVowel [0x101, 0x30D, 0x20, 0x69] 3 = Some [0x69]
   \<and> \<lparr>p_position = 3, p_type = ''long''\<rparr> \<in> set (findAllPauses [0x101, 0x30D, 0x20, 0x69])"
proof -
  let ?t = "[0x101, 0x30D, 0x20, 0x69] :: jsstring"
  have a: "pauseScanAt ?t 0" by (rule pauseScanAt.start)
  have b: "isVowel ?t 0 = Some [0x101]" by (simp add: classifier_defs)
  have c: "skipSvara ?t (0 + length [0x101::nat]) = 2"
    by (simp add: skipSvara.simps classifier_defs)
  have c': "skipSvara ?t (2 + 1) = 3"
    by (simp add: skipSvara.simps classifier_defs)
  have d: "?t ! 2 = (0x20::nat)" by simp
  have e: "isVowel ?t 3 = Some [0x69]" by (simp add: classifier_defs)
  have "\<lparr>p_position = 3, p_type = ''long''\<rparr> \<in> set (findAllPauses ?t)"
    using sandhi_pause_rule[of ?t 0 "[0x101]" "[0x69]"] a b c c' d e
    by (simp add: classifier_defs)
  with a b c d e show ?thesis by blast
qed

text \<open>
  Claim C5, as the claim states it, fails on \<open>a\<close> U+0009 \<open>i\<close>: the vowel unit \<open>a\<close> is followed
  by exactly one whitespace character (a tab) and then by the vowel unit \<open>i\<close>, and no pause
  is returned.
\<close>

theorem sandhi_pause_tab_no_pause:
  "isVowel [0x61, 0x09, 0x69] 0 = Some [0x61] \<and> isWhitespace ([0x61, 0x09, 0x69] ! 1)
   \<and> isVowel [0x61, 0x09, 0x69] 2 = Some [0x69] \<and> findAllPauses [0x61, 0x09, 0x69] = []"
  by (simp add: pause_eval)

section \<open>Holding locator: clusters across a word boundary\<close>

text \<open>The indices that the loop variable of \<open>findAllHoldings\<close> takes.\<close>

inductive holdingScanAt :: "jsstring \<Rightarrow> nat \<Rightarrow> bool" for tx :: jsstring where
  start: "holdingScanAt tx 0"
| pipe: "holdingScanAt tx i \<Longrightarrow> i < length tx \<Longrightarrow> tx ! i = 0x7C \<Longrightarrow> holdingScanAt tx (i + 1)"
| pushed: "holdingScanAt tx i \<Longrightarrow> i < length tx \<Longrightarrow> tx ! i \<noteq> 0x7C \<Longrightarrow>
       isConsonant tx i = Some c \<Longrightarrow>
       h_position (findHoldingPosition tx i) > 0 \<and> h_length (findHoldingPosition tx i) > 0 \<Longrightarrow>
       holdingScanAt tx (afterHolding (findHoldingPosition tx i))"
| skipped: "holdingScanAt tx i \<Longrightarrow> i < length tx \<Longrightarrow> tx ! i \<noteq> 0x7C \<Longrightarrow>
       isConsonant tx i = Some c \<Longrightarrow>
       \<not> (h_position (findHoldingPosition tx i) > 0 \<and> h_length (findHoldingPosition tx i) > 0) \<Longrightarrow>
       holdingScanAt tx (i + length c)"
| other: "holdingScanAt tx i \<Longrightarrow> i < length tx \<Longrightarrow> tx ! i \<noteq> 0x7C \<Longrightarrow>
       isConsonant tx i = None \<Longrightarrow> holdingScanAt tx (i + 1)"

lemma holdingScanAt_subset:
  "holdingScanAt tx i \<Longrightarrow> set (findAllHoldings_from tx i) \<subseteq> set (findAllHoldings tx)"
proof (induction rule: holdingScanAt.induct)
  case start
  show ?case by (simp add: findAllHoldings_def)
next
  case (pipe i)
  then show ?case by (subst (asm) findAllHoldings_from.simps) simp
next
  case (pushed i c)
  then show ?case by (subst (asm) findAllHoldings_from.simps) auto
next
  case (skipped i c)
  then show ?case by (subst (asm) findAllHoldings_from.simps) auto
next
  case (other i)
  then show ?case by (subst (asm) findAllHoldings_from.simps) auto
qed

lemma isConsonant_head:
  "isConsonant tx i = Some c \<Longrightarrow> tx ! i = hd c \<and> c \<in> set ALL_CONSONANTS"
proof -
  assume a: "isConsonant tx i = Some c"
  have sub: "set TWO_CHAR_CONSONANTS \<subseteq> set ALL_CONSONANTS"
    by (simp add: TWO_CHAR_CONSONANTS_def ALL_CONSONANTS_def)
  from a sub show ?thesis
    by (auto simp: isConsonant_def split: if_splits)
qed

lemma consonant_head_plain:
  "c \<in> set ALL_CONSONANTS \<Longrightarrow>
     \<not> isWhitespace (hd c) \<and> hd c \<noteq> 0x0A \<and> hd c \<noteq> 0x7C \<and> \<not> isSvaraMark (hd c)"
  unfolding ALL_CONSONANTS_def
  by (elim disjE | simp add: isWhitespace_def isSvaraMark_def SVARA_MARKS_def)+

lemma isConsonant_plain:
  "isConsonant tx i = Some c \<Longrightarrow>
     \<not> isWhitespace (tx ! i) \<and> tx ! i \<noteq> 0x0A \<and> tx ! i \<noteq> 0x7C \<and> \<not> isSvaraMark (tx ! i)"
  using isConsonant_head[of tx i c] consonant_head_plain[of c] by simp

lemma findPreviousVowel_loop_found:
  "pv_vowel (findPreviousVowel_loop tx b n) \<noteq> [] \<Longrightarrow> 0 < n"
  by (cases n) auto

lemma traverse_consonant:
  assumes "isConsonant tx i = Some c"
  shows "traverse tx hp ty i False lastB = traverse tx hp ty (i + length c) False lastB"
  using assms isConsonant_plain[OF assms] isConsonant_less[OF assms]
  by (subst traverse.simps) simp

lemma traverse_space:
  assumes "i < length tx" "isWhitespace (tx ! i)" "isConsonant tx hp = Some c"
  shows "traverse tx hp ty i False lastB = traverse tx hp ty (i + 1) True (Some (c, hp))"
  using assms by (subst traverse.simps) simp

lemma traverse_second_word:
  assumes "isConsonant tx i = Some c2"
  shows "traverse tx hp ty i True (Some (c1, p1)) =
           Some \<lparr>h_position = (if c2 = c1 then p1 else i),
                 h_length = (if c2 = c1 then length c1 else length c2),
                 h_type = ty, h_endPos = Some (skipToEnd tx (i + length c2))\<rparr>"
  using assms isConsonant_plain[OF assms] isConsonant_less[OF assms]
  by (subst traverse.simps) simp

lemma findSamyuktaLength_across:
  assumes "isConsonant tx pos = Some c1" "pos + length c1 < length tx"
    "isWhitespace (tx ! (pos + length c1))" "isConsonant tx (pos + length c1 + 1) = Some c2"
  shows "2 \<le> findSamyuktaLength tx pos False"
proof -
  have a: "findSamyuktaLength tx pos False = 1 + findSamyuktaLength tx (pos + length c1) False"
    using assms(1) isConsonant_plain[OF assms(1)] isConsonant_less[OF assms(1)]
    by (subst findSamyuktaLength.simps) simp
  have b: "findSamyuktaLength tx (pos + length c1) False
             = findSamyuktaLength tx (pos + length c1 + 1) False"
    using assms(2,3) by (subst findSamyuktaLength.simps) simp
  have c: "findSamyuktaLength tx (pos + length c1 + 1) False
             = 1 + findSamyuktaLength tx (pos + length c1 + 1 + length c2) False"
    using assms(4) isConsonant_plain[OF assms(4)] isConsonant_less[OF assms(4)]
    by (subst findSamyuktaLength.simps) simp
  from a b c show ?thesis by simp
qed

lemma findHoldingPosition_across:
  assumes c1: "isConsonant tx pos = Some c1"
    and pv: "pv_vowel (findPreviousVowel tx pos True) \<noteq> []"
    and sp: "pos + length c1 < length tx" "isWhitespace (tx ! (pos + length c1))"
    and c2: "isConsonant tx (pos + length c1 + 1) = Some c2"
  shows "findHoldingPosition tx pos =
           \<lparr>h_position = (if c2 = c1 then pos else pos + length c1 + 1),
            h_length = length c2,
            h_type = (if pv_vowel (findPreviousVowel tx pos True) \<in> set LONG_VOWELS
                      then ''long'' else ''short''),
            h_endPos = Some (skipToEnd tx (pos + length c1 + 1 + length c2))\<rparr>"
proof -
  define ty where "ty = (if pv_vowel (findPreviousVowel tx pos True) \<in> set LONG_VOWELS
                         then ''long'' else ''short'')"
  have "traverse tx pos ty pos False None = traverse tx pos ty (pos + length c1) False None"
    using c1 by (rule traverse_consonant)
  also have "\<dots> = traverse tx pos ty (pos + length c1 + 1) True (Some (c1, pos))"
    using sp c1 by (rule traverse_space)
  also have "\<dots> = Some \<lparr>h_position = (if c2 = c1 then pos else pos + length c1 + 1),
                 h_length = (if c2 = c1 then length c1 else length c2),
                 h_type = ty, h_endPos = Some (skipToEnd tx (pos + length c1 + 1 + length c2))\<rparr>"
    using c2 by (rule traverse_second_word)
  finally have tr: "traverse tx pos ty pos False None =
      Some \<lparr>h_position = (if c2 = c1 then pos else pos + length c1 + 1),
            h_length = length c2,
            h_type = ty, h_endPos = Some (skipToEnd tx (pos + length c1 + 1 + length c2))\<rparr>"
    by (cases "c2 = c1") simp_all
  have "\<not> findSamyuktaLength tx pos False \<le> 1"
    using findSamyuktaLength_across[OF c1 sp c2] by simp
  with c1 pv tr show ?thesis
    by (simp add: findHoldingPosition_def Let_def ty_def)
qed

text \<open>
  When a single consonant unit precedes the whitespace, the first consonant of the cluster
  is also the last consonant before the space, and the span is placed as the rule of
  dvirvacana says: on that consonant if the consonant unit directly after the space is
  identical to it, on the first consonant of the second word otherwise.
\<close>

lemma dvirvacana_placement:
  assumes "holdingScanAt tx pos"
    and "isConsonant tx pos = Some c1"
    and "pv_vowel (findPreviousVowel tx pos True) \<noteq> []"
    and "pos + length c1 < length tx"
    and "isWhitespace (tx ! (pos + length c1))"
    and "isConsonant tx (pos + length c1 + 1) = Some c2"
  shows "\<lparr>h_position = (if c2 = c1 then pos else pos + length c1 + 1),
          h_length = length c2,
          h_type = (if pv_vowel (findPreviousVowel tx pos True) \<in> set LONG_VOWELS
                    then ''long'' else ''short''),
          h_endPos = Some (skipToEnd tx (pos + length c1 + 1 + length c2))\<rparr>
         \<in> set (findAllHoldings tx)"
proof -
  let ?h = "\<lparr>h_position = (if c2 = c1 then pos else pos + length c1 + 1),
          h_length = length c2,
          h_type = (if pv_vowel (findPreviousVowel tx pos True) \<in> set LONG_VOWELS
                    then ''long'' else ''short''),
          h_endPos = Some (skipToEnd tx (pos + length c1 + 1 + length c2))\<rparr>"
  have fh: "findHoldingPosition tx pos = ?h"
    using assms(2-6) by (rule findHoldingPosition_across)
  have "0 < pos"
    using assms(3) findPreviousVowel_loop_found[of tx True pos]
    by (simp add: findPreviousVowel_def)
  moreover have "0 < length c2" using isConsonant_length[OF assms(6)] by auto
  ultimately have pos: "0 < h_position ?h \<and> 0 < h_length ?h" by simp
  have "tx ! pos \<noteq> 0x7C" using isConsonant_plain[OF assms(2)] by simp
  with assms(2) isConsonant_less[OF assms(2)] pos fh
  have "?h \<in> set (findAllHoldings_from tx pos)"
    by (subst findAllHoldings_from.simps) simp
  with holdingScanAt_subset[OF assms(1)] show ?thesis by blast
qed


text \<open>
  \<open>ak ka\<close>: the span is on the \<open>k\<close> of the first word (index 1). With a long vowel and a
  different consonant, U+0101 \<open>k ta\<close>: the span is on the \<open>t\<close> of the second word (index 3),
  kind \<open>long\<close>.
\<close>

lemma dvirvacana_placement_examples:
  "holdingScanAt [0x61, 0x6B, 0x20, 0x6B, 0x61] 1
   \<and> isConsonant [0x61, 0x6B, 0x20, 0x6B, 0x61] 1 = Some [0x6B]
   \<and> pv_vowel (findPreviousVowel [0x61, 0x6B, 0x20, 0x6B, 0x61] 1 True) = [0x61]
   \<and> isWhitespace ([0x61, 0x6B, 0x20, 0x6B, 0x61] ! 2)
   \<and> isConsonant [0x61, 0x6B, 0x20, 0x6B, 0x61] 3 = Some [0x6B]
   \<and> \<lparr>h_position = 1, h_length = 1, h_type = ''short'', h_endPos = Some 4\<rparr>
        \<in> set (findAllHoldings [0x61, 0x6B, 0x20, 0x6B, 0x61])
   \<and> \<lparr>h_position = 3, h_length = 1, h_type = ''long'', h_endPos = Some 4\<rparr>
        \<in> set (findAllHoldings [0x101, 0x6B, 0x20, 0x74, 0x61])"
proof -
  let ?t = "[0x61, 0x6B, 0x20, 0x6B, 0x61] :: jsstring"
  let ?u = "[0x101, 0x6B, 0x20, 0x74, 0x61] :: jsstring"
  have s1: "holdingScanAt ?t 1"
    using holdingScanAt.other[OF holdingScanAt.start, of ?t] by (simp add: classifier_defs)
  have s2: "holdingScanAt ?u 1"
    using holdingScanAt.other[OF holdingScanAt.start, of ?u] by (simp add: classifier_defs)
  have c1: "isConsonant ?t 1 = Some [0x6B]" by (simp add: classifier_defs)
  have d1: "isConsonant ?u 1 = Some [0x6B]" by (simp add: classifier_defs)
  have v1: "pv_vowel (findPreviousVowel ?t 1 True) = [0x61]"
    by (simp add: findPreviousVowel_def classifier_defs)
  then have v1': "pv_vowel (findPreviousVowel ?t 1 True) \<noteq> []" by simp
  have w1: "pv_vowel (findPreviousVowel ?u 1 True) \<noteq> []"
    by (simp add: findPreviousVowel_def classifier_defs)
  have l1: "1 + length [0x6B::nat] < length ?t" by simp
  have l2: "1 + length [0x6B::nat] < length ?u" by simp
  have sp1: "isWhitespace (?t ! (1 + length [0x6B::nat]))" by (simp add: isWhitespace_def)
  have sp2: "isWhitespace (?u ! (1 + length [0x6B::nat]))" by (simp add: isWhitespace_def)
  have c2: "isConsonant ?t (1 + length [0x6B::nat] + 1) = Some [0x6B]"
    by (simp add: classifier_defs)
  have d2: "isConsonant ?u (1 + length [0x6B::nat] + 1) = Some [0x74]"
    by (simp add: classifier_defs)
  have q1: "\<lparr>h_position = (if [0x6B] = [0x6B::nat] then 1 else 1 + length [0x6B::nat] + 1),
          h_length = length [0x6B::nat],
          h_type = (if pv_vowel (findPreviousVowel ?t 1 True) \<in> set LONG_VOWELS
                    then ''long'' else ''short''),
          h_endPos = Some (skipToEnd ?t (1 + length [0x6B::nat] + 1 + length [0x6B::nat]))\<rparr>
        = \<lparr>h_position = 1, h_length = 1, h_type = ''short'', h_endPos = Some 4\<rparr>"
    by (simp add: findPreviousVowel_def skipToEnd.simps classifier_defs)
  have q2: "\<lparr>h_position = (if [0x74] = [0x6B::nat] then 1 else 1 + length [0x6B::nat] + 1),
          h_length = length [0x74::nat],
          h_type = (if pv_vowel (findPreviousVowel ?u 1 True) \<in> set LONG_VOWELS
                    then ''long'' else ''short''),
          h_endPos = Some (skipToEnd ?u (1 + length [0x6B::nat] + 1 + length [0x74::nat]))\<rparr>
        = \<lparr>h_position = 3, h_length = 1, h_type = ''long'', h_endPos = Some 4\<rparr>"
    by (simp add: findPreviousVowel_def skipToEnd.simps classifier_defs)
  have r1: "\<lparr>h_position = 1, h_length = 1, h_type = ''short'', h_endPos = Some 4\<rparr>
        \<in> set (findAllHoldings ?t)"
    using dvirvacana_placement[OF s1 c1 v1' l1 sp1 c2] unfolding q1 .
  have r2: "\<lparr>h_position = 3, h_length = 1, h_type = ''long'', h_endPos = Some 4\<rparr>
        \<in> set (findAllHoldings ?u)"
    using dvirvacana_placement[OF s2 d1 w1 l2 sp2 d2] unfolding q2 .
  have sp: "isWhitespace (?t ! 2)" by (simp add: isWhitespace_def)
  have c3: "isConsonant ?t 3 = Some [0x6B]" by (simp add: classifier_defs)
  from s1 c1 v1 sp c3 r1 r2 show ?thesis by blast
qed

text \<open>
  The word-initial rule comes first: in \<open>a k ta\<close> the cluster \<open>k\<close>, space, \<open>t\<close> at index 2
  follows a whitespace, and the span is on its first consonant \<open>k\<close> (index 2), kind
  \<open>short\<close>, whatever follows the space.
\<close>

lemma word_initial_cluster_first_consonant:
  "isConsonant [0x61, 0x20, 0x6B, 0x20, 0x74, 0x61] 2 = Some [0x6B]
   \<and> isWhitespace ([0x61, 0x20, 0x6B, 0x20, 0x74, 0x61] ! 3)
   \<and> isConsonant [0x61, 0x20, 0x6B, 0x20, 0x74, 0x61] 4 = Some [0x74]
   \<and> findSamyuktaLength [0x61, 0x20, 0x6B, 0x20, 0x74, 0x61] 2 False = 2
   \<and> findAllHoldings [0x61, 0x20, 0x6B, 0x20, 0x74, 0x61]
       = [\<lparr>h_position = 2, h_length = 1, h_type = ''short'', h_endPos = None\<rparr>]"
  by (simp add: holding_eval)

text \<open>
  Claim C3 (dvirvacana placement). For a cluster that crosses a whitespace, the span is to be
  placed on the last consonant of the first word if the consonant unit directly after the
  space is identical to it, and on the first consonant of the second word otherwise. The
  code departs from that when more than one consonant unit precedes the space: the variable
  \<open>lastConsonantBeforeSpace\<close> is read at \<open>holdingPosition\<close>, which stays on the first consonant
  of the cluster. In \<open>akt ta\<close> the last consonant before the space is \<open>t\<close> (index 2) and the
  consonant after the space is \<open>t\<close> (index 4); the span belongs on index 2, but the code
  compares with \<open>k\<close> and returns the span on index 4.
\<close>

theorem dvirvacana_first_consonant_compared:
  "isConsonant [0x61, 0x6B, 0x74, 0x20, 0x74, 0x61] 2 = Some [0x74]
   \<and> isWhitespace ([0x61, 0x6B, 0x74, 0x20, 0x74, 0x61] ! 3)
   \<and> isConsonant [0x61, 0x6B, 0x74, 0x20, 0x74, 0x61] 4 = Some [0x74]
   \<and> findAllHoldings [0x61, 0x6B, 0x74, 0x20, 0x74, 0x61]
       = [\<lparr>h_position = 4, h_length = 1, h_type = ''short'', h_endPos = Some 5\<rparr>]"
  by (simp add: holding_eval)

text \<open>
  In the same way, in \<open>atk ka\<close> the consonant after the space is compared with \<open>t\<close>, not
  with the \<open>k\<close> before the space, and the span is put on the \<open>k\<close> of the second word
  (index 4).
\<close>

lemma dvirvacana_compares_first_consonant:
  "findAllHoldings [0x61, 0x74, 0x6B, 0x20, 0x6B, 0x61]
     = [\<lparr>h_position = 4, h_length = 1, h_type = ''short'', h_endPos = Some 5\<rparr>]"
  by (simp add: holding_eval)

section \<open>Holding locator: pause glyph and tone marks inside a cluster\<close>

















text \<open>
  The unit boundaries of a cluster. \<open>clusterReaches tx j k\<close> holds when a loop that steps
  over whitespace, pause glyphs, tone marks and consonant units, as the traversal loop of
  \<open>findHoldingPosition\<close> does, takes the index \<open>k\<close> when it is started at index \<open>j\<close>.
\<close>

function clusterReaches :: "jsstring \<Rightarrow> nat \<Rightarrow> nat \<Rightarrow> bool" where
  "clusterReaches tx j k =
     (if j = k then True
      else if j < k \<and> j < length tx then
        if isWhitespace (tx ! j) \<or> tx ! j = 0x0A \<or> tx ! j = 0x7C \<or> isSvaraMark (tx ! j)
        then clusterReaches tx (j + 1) k
        else (case isConsonant tx j of
                Some cons \<Rightarrow> clusterReaches tx (j + length cons) k
              | None \<Rightarrow> False)
      else False)"
  by pat_completeness auto
termination
  by (relation "measure (\<lambda>(tx, j, k). k - j)") (auto simp: isConsonant_def split: if_splits)

declare clusterReaches.simps [simp del]
































text \<open>
  The loop that skips over \<open>SKIP_CONSONANTS\<close> steps by consonant units only, so a pause glyph
  directly after a skipped consonant ends the search: \<open>asta\<close> has its holding on \<open>t\<close>,
  \<open>as|ta\<close> has none.
\<close>

lemma pause_glyph_after_skip_consonant:
  "findAllHoldings [0x61, 0x73, 0x74, 0x61]
     = [\<lparr>h_position = 2, h_length = 1, h_type = ''short'', h_endPos = None\<rparr>]
   \<and> findAllHoldings [0x61, 0x73, 0x7C, 0x74, 0x61] = []"
  by (simp add: holding_eval)

text \<open>
  The two loops that run to the end of the cluster after a word boundary step over tone
  marks and consonant units only, so a pause glyph behind the annotated consonant ends the
  recorded cluster early: in \<open>ak tkta\<close> the one span has \<open>endPos = 6\<close>, in \<open>ak t|kta\<close> it
  has \<open>endPos = 4\<close> and the scan of \<open>findAllHoldings\<close> goes on to annotate the \<open>k\<close> after the
  glyph as well.
\<close>

lemma pause_glyph_ends_recorded_cluster:
  "findAllHoldings [0x61, 0x6B, 0x20, 0x74, 0x6B, 0x74, 0x61]
     = [\<lparr>h_position = 3, h_length = 1, h_type = ''short'', h_endPos = Some 6\<rparr>]
   \<and> findAllHoldings [0x61, 0x6B, 0x20, 0x74, 0x7C, 0x6B, 0x74, 0x61]
     = [\<lparr>h_position = 3, h_length = 1, h_type = ''short'', h_endPos = Some 4\<rparr>,
        \<lparr>h_position = 5, h_length = 1, h_type = ''short'', h_endPos = None\<rparr>]"
  by (simp add: holding_eval)

text \<open>
  An index inside a consonant unit is not a unit boundary: in \<open>akhta\<close> the unit at index 1
  is \<open>kh\<close>, and a pause glyph between \<open>k\<close> and \<open>h\<close> makes it the two units \<open>k\<close> and \<open>h\<close>.
\<close>

lemma pause_glyph_inside_consonant_unit:
  "isConsonant [0x61, 0x6B, 0x68, 0x74, 0x61] 1 = Some [0x6B, 0x68]
   \<and> \<not> clusterReaches [0x61, 0x6B, 0x68, 0x74, 0x61] 1 2
   \<and> findHoldingPosition [0x61, 0x6B, 0x68, 0x74, 0x61] 1
       = \<lparr>h_position = 1, h_length = 2, h_type = ''short'', h_endPos = None\<rparr>
   \<and> findHoldingPosition [0x61, 0x6B, 0x7C, 0x68, 0x74, 0x61] 1
       = \<lparr>h_position = 1, h_length = 1, h_type = ''short'', h_endPos = None\<rparr>"
  by (simp add: holding_eval clusterReaches.simps)

section \<open>Script converter: the loops as recursions on the remaining text\<close>

lemma d2i_consonants_pair: "map_of d2i_consonants [a, b] = None"
  by (simp add: d2i_consonants_def)

text \<open>The branch for two-unit keys is never taken: the keys have one or three code units.\<close>

lemma devanagariToIAST_step_single:
  "devanagariToIAST_step tx i =
     (if tx ! i = 0x950 then ([0x6F, 0x1E41], i + 1)
      else
        (case map_of d2i_vowels [tx ! i] of
           Some v \<Rightarrow> (v, i + 1)
         | None \<Rightarrow>
           (case map_of d2i_consonants [tx ! i] of
              Some c \<Rightarrow>
                if i + 1 < length tx then
                  (case map_of d2i_vowelSigns [tx ! (i + 1)] of
                     Some v \<Rightarrow> (c @ v, i + 2)
                   | None \<Rightarrow> if tx ! (i + 1) = 0x94D then (c, i + 2) else (c @ [0x61], i + 1))
                else (c, i + 1)
            | None \<Rightarrow>
              (case map_of d2i_vowelSigns [tx ! i] of
                 Some v \<Rightarrow> (v, i + 1)
               | None \<Rightarrow>
                   (case map_of d2i_special [tx ! i] of
                      Some s \<Rightarrow> if tx ! i \<noteq> 0x94D then (s, i + 1) else ([], i + 1)
                    | None \<Rightarrow> if tx ! i = 0x94D then ([], i + 1) else ([tx ! i], i + 1))))))"
  by (cases "map_of d2i_vowels [tx ! i]"; cases "map_of d2i_consonants [tx ! i]";
      cases "map_of d2i_vowelSigns [tx ! i]"; cases "map_of d2i_vowelSigns [tx ! (i + 1)]";
      cases "map_of d2i_special [tx ! i]")
     (simp_all add: devanagariToIAST_step_def Let_def d2i_consonants_pair)

lemma nth_append_shift:
  "(xs @ ys) ! (length xs + i) = ys ! i"
  "(xs @ ys) ! Suc (length xs + i) = ys ! Suc i"
  "(xs @ ys) ! Suc (Suc (length xs + i)) = ys ! Suc (Suc i)"
  by (simp_all add: nth_append)

lemma devanagariToIAST_step_shift:
  "i < length ys \<Longrightarrow>
     devanagariToIAST_step (xs @ ys) (length xs + i)
       = (fst (devanagariToIAST_step ys i), length xs + snd (devanagariToIAST_step ys i))"
  by (cases "map_of d2i_vowels [ys ! i]"; cases "map_of d2i_consonants [ys ! i]";
      cases "map_of d2i_vowelSigns [ys ! i]"; cases "map_of d2i_vowelSigns [ys ! Suc i]";
      cases "map_of d2i_special [ys ! i]")
     (simp_all add: devanagariToIAST_step_single nth_append_shift)

lemma devanagariToIAST_from_shift:
  "devanagariToIAST_from (xs @ ys) (length xs + i) = devanagariToIAST_from ys i"
proof (induction ys i rule: devanagariToIAST_from.induct)
  case (1 ys i)
  show ?case
  proof (cases "i < length ys")
    case True
    from "1.IH"[OF True]
    have "devanagariToIAST_from (xs @ ys) (length xs + snd (devanagariToIAST_step ys i))
            = devanagariToIAST_from ys (snd (devanagariToIAST_step ys i))" .
    with True show ?thesis
      by (subst devanagariToIAST_from.simps, subst (2) devanagariToIAST_from.simps)
         (simp add: devanagariToIAST_step_shift)
  next
    case False
    then show ?thesis
      by (subst devanagariToIAST_from.simps, subst (2) devanagariToIAST_from.simps) simp
  qed
qed

lemma devanagariToIAST_from_drop:
  "n \<le> length tx \<Longrightarrow> devanagariToIAST_from tx n = devanagariToIAST (drop n tx)"
  using devanagariToIAST_from_shift[of "take n tx" "drop n tx" 0]
  by (simp add: devanagariToIAST_def)

lemma devanagariToIAST_step_bound:
  "i < length tx \<Longrightarrow> snd (devanagariToIAST_step tx i) \<le> length tx"
  by (cases "map_of d2i_vowels [tx ! i]"; cases "map_of d2i_consonants [tx ! i]";
      cases "map_of d2i_vowelSigns [tx ! i]"; cases "map_of d2i_vowelSigns [tx ! (i + 1)]";
      cases "map_of d2i_special [tx ! i]")
     (simp_all add: devanagariToIAST_step_single)

lemma devanagariToIAST_Nil: "devanagariToIAST [] = []"
  by (simp add: devanagariToIAST_def devanagariToIAST_from.simps)

lemma devanagariToIAST_unfold:
  assumes "tx \<noteq> []"
  shows "devanagariToIAST tx = fst (devanagariToIAST_step tx 0)
                            @ devanagariToIAST (drop (snd (devanagariToIAST_step tx 0)) tx)"
proof -
  from assms have inb: "0 < length tx" by simp
  have "devanagariToIAST tx = fst (devanagariToIAST_step tx 0)
          @ devanagariToIAST_from tx (snd (devanagariToIAST_step tx 0))"
    using inb by (simp add: devanagariToIAST_def devanagariToIAST_from.simps[of tx 0])
  also have "devanagariToIAST_from tx (snd (devanagariToIAST_step tx 0))
               = devanagariToIAST (drop (snd (devanagariToIAST_step tx 0)) tx)"
    using devanagariToIAST_step_bound[OF inb] by (rule devanagariToIAST_from_drop)
  finally show ?thesis .
qed


subsection \<open>The lookup objects of devanagariToIAST have disjoint keys\<close>

lemma d2i_consonant_other:
  assumes "map_of d2i_consonants [x] = Some c"
  shows "x \<noteq> 0x950 \<and> map_of d2i_vowels [x] = None \<and> x \<noteq> 0x94D \<and> c \<noteq> []"
proof -
  from assms have "([x], c) \<in> set d2i_consonants" by (rule map_of_SomeD)
  then show ?thesis
    unfolding d2i_consonants_def list.set insert_iff empty_iff
    by (elim disjE FalseE; simp add: d2i_vowels_def)
qed

lemma d2i_vowelSign_other:
  assumes "map_of d2i_vowelSigns [x] = Some v"
  shows "x \<noteq> 0x950 \<and> map_of d2i_vowels [x] = None \<and> map_of d2i_consonants [x] = None
         \<and> x \<noteq> 0x94D \<and> v \<noteq> []"
proof -
  from assms have "([x], v) \<in> set d2i_vowelSigns" by (rule map_of_SomeD)
  then show ?thesis
    unfolding d2i_vowelSigns_def list.set insert_iff empty_iff
    by (elim disjE FalseE; simp add: d2i_vowels_def d2i_consonants_def)
qed

lemma d2i_special_other:
  assumes "map_of d2i_special [x] = Some s"
  shows "x \<noteq> 0x950 \<and> map_of d2i_vowels [x] = None \<and> map_of d2i_consonants [x] = None
         \<and> map_of d2i_vowelSigns [x] = None \<and> x \<noteq> 0x94D \<and> s \<noteq> []"
proof -
  from assms have "([x], s) \<in> set d2i_special" by (rule map_of_SomeD)
  then show ?thesis
    unfolding d2i_special_def list.set insert_iff empty_iff
    by (elim disjE FalseE; simp add: d2i_vowels_def d2i_consonants_def d2i_vowelSigns_def)
qed

lemma d2i_virama_other:
  "map_of d2i_vowels [0x94D] = None" "map_of d2i_consonants [0x94D] = None"
  "map_of d2i_vowelSigns [0x94D] = None" "map_of d2i_special [0x94D] = None"
  by (simp_all add: d2i_vowels_def d2i_consonants_def d2i_vowelSigns_def d2i_special_def)

lemma d2i_om: "map_of d2i_vowels [0x950] = Some [0x6F, 0x1E41]"
  by (simp add: d2i_vowels_def)

subsection \<open>Recursion equations of devanagariToIAST\<close>

lemma g_vowel:
  assumes "map_of d2i_vowels [x] = Some v"
  shows "devanagariToIAST (x # xs) = v @ devanagariToIAST xs"
  using assms d2i_om
  by (subst devanagariToIAST_unfold) (auto simp: devanagariToIAST_step_single)

lemma g_cons_sign:
  assumes "map_of d2i_consonants [x] = Some c" "map_of d2i_vowelSigns [s] = Some v"
  shows "devanagariToIAST (x # s # xs) = c @ v @ devanagariToIAST xs"
  using assms d2i_consonant_other[OF assms(1)]
  by (subst devanagariToIAST_unfold) (simp_all add: devanagariToIAST_step_single)

lemma g_cons_virama:
  assumes "map_of d2i_consonants [x] = Some c"
  shows "devanagariToIAST (x # 0x94D # xs) = c @ devanagariToIAST xs"
  using assms d2i_consonant_other[OF assms(1)] d2i_virama_other
  by (subst devanagariToIAST_unfold) (simp_all add: devanagariToIAST_step_single)

lemma g_cons_inherent:
  assumes "map_of d2i_consonants [x] = Some c" "map_of d2i_vowelSigns [y] = None" "y \<noteq> 0x94D"
  shows "devanagariToIAST (x # y # xs) = c @ [0x61] @ devanagariToIAST (y # xs)"
  using assms d2i_consonant_other[OF assms(1)]
  by (subst devanagariToIAST_unfold) (simp_all add: devanagariToIAST_step_single)

lemma g_cons_end:
  assumes "map_of d2i_consonants [x] = Some c"
  shows "devanagariToIAST [x] = c"
  using assms d2i_consonant_other[OF assms(1)]
  by (subst devanagariToIAST_unfold) (simp_all add: devanagariToIAST_step_single devanagariToIAST_Nil)

lemma g_sign:
  assumes "map_of d2i_vowelSigns [x] = Some v"
  shows "devanagariToIAST (x # xs) = v @ devanagariToIAST xs"
  using assms d2i_vowelSign_other[OF assms(1)]
  by (subst devanagariToIAST_unfold) (simp_all add: devanagariToIAST_step_single)

lemma g_special:
  assumes "map_of d2i_special [x] = Some s"
  shows "devanagariToIAST (x # xs) = s @ devanagariToIAST xs"
  using assms d2i_special_other[OF assms(1)]
  by (subst devanagariToIAST_unfold) (simp_all add: devanagariToIAST_step_single)

lemma g_virama: "devanagariToIAST (0x94D # xs) = devanagariToIAST xs"
  using d2i_virama_other
  by (subst devanagariToIAST_unfold) (simp_all add: devanagariToIAST_step_single)

lemma g_other:
  assumes "x \<noteq> 0x950" "map_of d2i_vowels [x] = None" "map_of d2i_consonants [x] = None"
    "map_of d2i_vowelSigns [x] = None" "map_of d2i_special [x] = None" "x \<noteq> 0x94D"
  shows "devanagariToIAST (x # xs) = x # devanagariToIAST xs"
  using assms
  by (subst devanagariToIAST_unfold) (simp_all add: devanagariToIAST_step_single)

subsection \<open>iastToDevanagari on the remaining text\<close>

lemma substring_shift:
  "substring (xs @ ys) (length xs + i) (length xs + i + k) = substring ys i (i + k)"
  by (simp add: substring_def)

lemma isConsonantAhead_shift:
  "isConsonantAhead (xs @ ys) (length xs + i) = isConsonantAhead ys i"
  using substring_shift[of xs ys i 2]
  by (simp add: isConsonantAhead_def nth_append_shift add.assoc)

lemma afterConsonant_shift:
  "afterConsonant (xs @ ys) (length xs + i)
     = (fst (afterConsonant ys i), length xs + snd (afterConsonant ys i))"
  using substring_shift[of xs ys i 2] isConsonantAhead_shift[of xs ys i]
  by (simp add: afterConsonant_def nth_append_shift add.assoc)

lemma iastToDevanagari_step_shift:
  "i < length ys \<Longrightarrow>
     iastToDevanagari_step (xs @ ys) (length xs + i)
       = (fst (iastToDevanagari_step ys i), length xs + snd (iastToDevanagari_step ys i))"
  using substring_shift[of xs ys i 2] substring_shift[of xs ys i 3]
    afterConsonant_shift[of xs ys "i + 1"] afterConsonant_shift[of xs ys "i + 2"]
  by (cases "map_of i2d_consonants [ys ! i]"; cases "map_of i2d_vowels [ys ! i]";
      cases "map_of i2d_special [ys ! i]")
     (auto simp: iastToDevanagari_step_def nth_append_shift add.assoc)


lemma iastToDevanagari_from_shift:
  "iastToDevanagari_from (xs @ ys) (length xs + i) = iastToDevanagari_from ys i"
proof (induction ys i rule: iastToDevanagari_from.induct)
  case (1 ys i)
  show ?case
  proof (cases "i < length ys")
    case True
    from "1.IH"[OF True]
    have "iastToDevanagari_from (xs @ ys) (length xs + snd (iastToDevanagari_step ys i))
            = iastToDevanagari_from ys (snd (iastToDevanagari_step ys i))" .
    with True show ?thesis
      by (subst iastToDevanagari_from.simps, subst (2) iastToDevanagari_from.simps)
         (simp add: iastToDevanagari_step_shift)
  next
    case False
    then show ?thesis
      by (subst iastToDevanagari_from.simps, subst (2) iastToDevanagari_from.simps) simp
  qed
qed

lemma iastToDevanagari_from_drop:
  "n \<le> length tx \<Longrightarrow> iastToDevanagari_from tx n = iastToDevanagari (drop n tx)"
  using iastToDevanagari_from_shift[of "take n tx" "drop n tx" 0]
  by (simp add: iastToDevanagari_def)

lemma afterConsonant_bound: "i \<le> length tx \<Longrightarrow> snd (afterConsonant tx i) \<le> length tx"
  by (auto simp: afterConsonant_def)

lemma iastToDevanagari_step_bound:
  "i < length tx \<Longrightarrow> snd (iastToDevanagari_step tx i) \<le> length tx"
  using afterConsonant_bound[of "i + 1" tx] afterConsonant_bound[of "i + 2" tx]
  by (cases "map_of i2d_consonants [tx ! i]"; cases "map_of i2d_vowels [tx ! i]";
      cases "map_of i2d_special [tx ! i]")
     (auto simp: iastToDevanagari_step_def)

lemma iastToDevanagari_Nil: "iastToDevanagari [] = []"
  by (simp add: iastToDevanagari_def iastToDevanagari_from.simps)

lemma iastToDevanagari_unfold:
  assumes "tx \<noteq> []"
  shows "iastToDevanagari tx = fst (iastToDevanagari_step tx 0)
                            @ iastToDevanagari (drop (snd (iastToDevanagari_step tx 0)) tx)"
proof -
  from assms have inb: "0 < length tx" by simp
  have "iastToDevanagari tx = fst (iastToDevanagari_step tx 0)
          @ iastToDevanagari_from tx (snd (iastToDevanagari_step tx 0))"
    using inb by (simp add: iastToDevanagari_def iastToDevanagari_from.simps[of tx 0])
  also have "iastToDevanagari_from tx (snd (iastToDevanagari_step tx 0))
               = iastToDevanagari (drop (snd (iastToDevanagari_step tx 0)) tx)"
    using iastToDevanagari_step_bound[OF inb] by (rule iastToDevanagari_from_drop)
  finally show ?thesis .
qed

text \<open>
  What follows a consonant, as a function of the text after it: the output of
  \<open>afterConsonant\<close>, then the conversion of the rest.
\<close>

definition afterC :: "jsstring \<Rightarrow> jsstring" where
  "afterC xs = fst (afterConsonant xs 0) @ iastToDevanagari (drop (snd (afterConsonant xs 0)) xs)"


subsection \<open>Facts about the lookup objects of iastToDevanagari\<close>

lemma i2d_consonant2:
  assumes "map_of i2d_consonants [x, y] = Some g"
  shows "y = 0x68 \<and> x \<noteq> 0x6F \<and> x \<noteq> 0x61 \<and> map_of i2d_consonants [x] \<noteq> None
         \<and> map_of i2d_vowels [x, y] = None \<and> [x, y, 0x61] \<in> set aspiratedA"
proof -
  from assms have "([x, y], g) \<in> set i2d_consonants" by (rule map_of_SomeD)
  then show ?thesis
    unfolding i2d_consonants_def list.set insert_iff empty_iff
    by (elim disjE FalseE; simp add: i2d_consonants_def i2d_vowels_def aspiratedA_def)
qed

lemma i2d_aspiratedA:
  assumes "[x, y, z] \<in> set aspiratedA"
  shows "z = 0x61 \<and> y = 0x68 \<and> x \<noteq> 0x6F \<and> map_of i2d_consonants [x, y] \<noteq> None"
  using assms unfolding aspiratedA_def list.set insert_iff empty_iff
  by (elim disjE FalseE; simp add: i2d_consonants_def)

lemma i2d_consonant1:
  assumes "map_of i2d_consonants [x] = Some g"
  shows "x \<noteq> 0x6F \<and> x \<noteq> 0x61 \<and> map_of i2d_vowels [x] = None
         \<and> (\<forall>y. map_of i2d_vowels [x, y] = None) \<and> map_of i2d_vowelSigns [x] = None"
proof -
  from assms have "([x], g) \<in> set i2d_consonants" by (rule map_of_SomeD)
  then show ?thesis
    unfolding i2d_consonants_def list.set insert_iff empty_iff
    by (elim disjE FalseE; simp add: i2d_vowels_def i2d_vowelSigns_def)
qed

lemma i2d_vowel2:
  assumes "map_of i2d_vowels [x, y] = Some v"
  shows "map_of i2d_consonants [x, y] = None \<and> map_of i2d_consonants [x] = None
         \<and> map_of i2d_vowels [x] \<noteq> None
         \<and> (([x, y] = [0x6F, 0x1E41]) \<longrightarrow> v = [0x950])"
proof -
  from assms have "([x, y], v) \<in> set i2d_vowels" by (rule map_of_SomeD)
  then show ?thesis
    unfolding i2d_vowels_def list.set insert_iff empty_iff
    by (elim disjE FalseE; simp add: i2d_consonants_def i2d_vowels_def)
qed

lemma i2d_vowel1:
  assumes "map_of i2d_vowels [x] = Some v"
  shows "map_of i2d_consonants [x] = None \<and> (\<forall>y. map_of i2d_consonants [x, y] = None)"
proof -
  from assms have "([x], v) \<in> set i2d_vowels" by (rule map_of_SomeD)
  then show ?thesis
    unfolding i2d_vowels_def list.set insert_iff empty_iff
    by (elim disjE FalseE; simp add: i2d_consonants_def)
qed

lemma i2d_special1:
  assumes "map_of i2d_special [x] = Some s"
  shows "map_of i2d_consonants [x] = None \<and> (\<forall>y. map_of i2d_consonants [x, y] = None)
         \<and> (\<forall>y. map_of i2d_vowels [x, y] = None) \<and> x \<noteq> 0x6F"
proof -
  from assms have "([x], s) \<in> set i2d_special" by (rule map_of_SomeD)
  then show ?thesis
    unfolding i2d_special_def list.set insert_iff empty_iff
    by (elim disjE FalseE; simp add: i2d_consonants_def i2d_vowels_def)
qed

lemma i2d_sign2:
  assumes "map_of i2d_vowelSigns [y, z] = Some s"
  shows "y = 0x61 \<and> (z = 0x69 \<or> z = 0x75)"
proof -
  from assms have "([y, z], s) \<in> set i2d_vowelSigns" by (rule map_of_SomeD)
  then show ?thesis
    unfolding i2d_vowelSigns_def list.set insert_iff empty_iff
    by (elim disjE FalseE; simp)
qed

lemma i2d_sign_a: "map_of i2d_vowelSigns [0x61] = None"
  by (simp add: i2d_vowelSigns_def)

lemma i2d_om: "map_of i2d_vowels [0x6F, 0x1E41] = Some [0x950]" "map_of i2d_vowels [0x6F] \<noteq> None"
  by (simp_all add: i2d_vowels_def)

lemma not_aspiratedA:
  "map_of i2d_consonants [x, y] = None \<Longrightarrow> [x, y, z] \<notin> set aspiratedA"
  using i2d_aspiratedA[of x y z] by blast

subsection \<open>Recursion equations of iastToDevanagari\<close>

lemma substring_zero [simp]: "substring tx 0 n = take n tx"
  by (simp add: substring_def)

lemma afterConsonant_Cons:
  "afterConsonant (x # xs) (Suc i) = (fst (afterConsonant xs i), Suc (snd (afterConsonant xs i)))"
  using afterConsonant_shift[of "[x]" xs i] by simp

lemma f_vowel2:
  assumes "map_of i2d_vowels [x, y] = Some v"
  shows "iastToDevanagari (x # y # xs) = v @ iastToDevanagari xs"
proof -
  have "iastToDevanagari_step (x # y # xs) 0 = (v, 2)"
    using assms i2d_vowel2[OF assms] not_aspiratedA[of x y]
    by (cases xs) (auto simp: iastToDevanagari_step_def)
  then show ?thesis
    by (subst iastToDevanagari_unfold) simp_all
qed

lemma f_aspirated_a:
  assumes "map_of i2d_consonants [x, y] = Some g"
  shows "iastToDevanagari (x # y # 0x61 # xs) = g @ iastToDevanagari xs"
proof -
  have "iastToDevanagari_step (x # y # 0x61 # xs) 0 = (g, 3)"
    using assms i2d_consonant2[OF assms]
    by (auto simp: iastToDevanagari_step_def)
  then show ?thesis
    by (subst iastToDevanagari_unfold) simp_all
qed

lemma f_consonant2:
  assumes "map_of i2d_consonants [x, y] = Some g" "xs = [] \<or> hd xs \<noteq> 0x61"
  shows "iastToDevanagari (x # y # xs) = g @ afterC xs"
proof -
  have na: "xs \<noteq> [] \<Longrightarrow> take 3 (x # y # xs) \<notin> set aspiratedA"
    using assms(2) i2d_aspiratedA[of x y "hd xs"] by (cases xs) auto
  have "iastToDevanagari_step (x # y # xs) 0
          = (g @ fst (afterConsonant (x # y # xs) (Suc (Suc 0))),
             snd (afterConsonant (x # y # xs) (Suc (Suc 0))))"
    using assms(1) i2d_consonant2[OF assms(1)] na
    by (cases xs) (auto simp: iastToDevanagari_step_def)
  moreover have "afterConsonant (x # y # xs) (Suc (Suc 0))
                   = (fst (afterConsonant xs 0), Suc (Suc (snd (afterConsonant xs 0))))"
    by (simp add: afterConsonant_Cons)
  ultimately show ?thesis
    by (subst iastToDevanagari_unfold) (simp_all add: afterC_def)
qed

lemma f_consonant1:
  assumes "map_of i2d_consonants [x] = Some g" "xs = [] \<or> map_of i2d_consonants [x, hd xs] = None"
  shows "iastToDevanagari (x # xs) = g @ afterC xs"
proof -
  have "iastToDevanagari_step (x # xs) 0
          = (g @ fst (afterConsonant (x # xs) (Suc 0)), snd (afterConsonant (x # xs) (Suc 0)))"
  proof (cases xs)
    case Nil
    with assms(1) i2d_consonant1[OF assms(1)] show ?thesis
      by (simp add: iastToDevanagari_step_def)
  next
    case (Cons y ys)
    with assms have "map_of i2d_consonants [x, y] = None" by simp
    with Cons assms(1) i2d_consonant1[OF assms(1)] not_aspiratedA[of x y] show ?thesis
      by (cases ys) (auto simp: iastToDevanagari_step_def)
  qed
  moreover have "afterConsonant (x # xs) (Suc 0)
                   = (fst (afterConsonant xs 0), Suc (snd (afterConsonant xs 0)))"
    by (simp add: afterConsonant_Cons)
  ultimately show ?thesis
    by (subst iastToDevanagari_unfold) (simp_all add: afterC_def)
qed

lemma f_vowel1:
  assumes "map_of i2d_vowels [x] = Some v" "xs = [] \<or> map_of i2d_vowels [x, hd xs] = None"
  shows "iastToDevanagari (x # xs) = v @ iastToDevanagari xs"
proof -
  have "iastToDevanagari_step (x # xs) 0 = (v, 1)"
  proof (cases xs)
    case Nil
    with assms(1) i2d_vowel1[OF assms(1)] show ?thesis
      by (simp add: iastToDevanagari_step_def)
  next
    case (Cons y ys)
    with assms have "map_of i2d_vowels [x, y] = None" by simp
    moreover from this i2d_om have "[x, y] \<noteq> [0x6F, 0x1E41]" by auto
    ultimately show ?thesis
      using Cons assms(1) i2d_vowel1[OF assms(1)] not_aspiratedA[of x y]
      by (cases ys) (auto simp: iastToDevanagari_step_def)
  qed
  then show ?thesis
    by (subst iastToDevanagari_unfold) simp_all
qed

lemma f_special:
  assumes "map_of i2d_special [x] = Some s" "map_of i2d_vowels [x] = None"
  shows "iastToDevanagari (x # xs) = s @ iastToDevanagari xs"
proof -
  have "iastToDevanagari_step (x # xs) 0 = (s, 1)"
  proof (cases xs)
    case Nil
    with assms i2d_special1[OF assms(1)] show ?thesis
      by (simp add: iastToDevanagari_step_def)
  next
    case (Cons y ys)
    with assms i2d_special1[OF assms(1)] not_aspiratedA[of x y] show ?thesis
      by (cases ys) (auto simp: iastToDevanagari_step_def)
  qed
  then show ?thesis
    by (subst iastToDevanagari_unfold) simp_all
qed

lemma f_other:
  assumes "map_of i2d_consonants [x] = None" "map_of i2d_vowels [x] = None"
    "map_of i2d_special [x] = None"
  shows "iastToDevanagari (x # xs) = x # iastToDevanagari xs"
proof -
  have c2: "map_of i2d_consonants [x, y] = None" for y
    using assms(1) i2d_consonant2[of x y] by (cases "map_of i2d_consonants [x, y]") auto
  have v2: "map_of i2d_vowels [x, y] = None" for y
    using assms(2) i2d_vowel2[of x y] by (cases "map_of i2d_vowels [x, y]") auto
  have "iastToDevanagari_step (x # xs) 0 = ([x], 1)"
  proof (cases xs)
    case Nil
    with assms show ?thesis by (simp add: iastToDevanagari_step_def)
  next
    case (Cons y ys)
    from v2[of y] i2d_om have "[x, y] \<noteq> [0x6F, 0x1E41]" by auto
    with Cons assms c2[of y] v2[of y] not_aspiratedA[of x y] show ?thesis
      by (cases ys) (auto simp: iastToDevanagari_step_def)
  qed
  then show ?thesis
    by (subst iastToDevanagari_unfold) simp_all
qed

subsection \<open>Recursion equations of what follows a consonant\<close>

lemma i2d_consonant_ahead:
  "isConsonantAhead (y # xs) 0 \<longleftrightarrow> map_of i2d_consonants [y] \<noteq> None"
proof (cases xs)
  case Nil
  then show ?thesis by (simp add: isConsonantAhead_def substring_def)
next
  case (Cons z zs)
  have "map_of i2d_consonants [y, z] \<noteq> None \<Longrightarrow> map_of i2d_consonants [y] \<noteq> None"
    using i2d_consonant2[of y z] by auto
  with Cons show ?thesis by (auto simp: isConsonantAhead_def substring_def)
qed

lemma afterC_end: "afterC [] = [0x94D]"
  by (simp add: afterC_def afterConsonant_def iastToDevanagari_Nil)

lemma afterC_sign2:
  assumes "map_of i2d_vowelSigns [y, z] = Some s"
  shows "afterC (y # z # xs) = s @ iastToDevanagari xs"
  using assms by (simp add: afterC_def afterConsonant_def)

lemma afterC_sign1:
  assumes "map_of i2d_vowelSigns [y] = Some s"
  shows "afterC (y # xs) = s @ iastToDevanagari xs"
proof -
  have ya: "y \<noteq> 0x61" using assms i2d_sign_a by auto
  have "map_of i2d_vowelSigns [y, z] = None" for z
    using ya i2d_sign2[of y z] by (cases "map_of i2d_vowelSigns [y, z]") auto
  with assms show ?thesis
    by (cases xs) (simp_all add: afterC_def afterConsonant_def)
qed

lemma afterC_a:
  assumes "xs = [] \<or> (hd xs \<noteq> 0x69 \<and> hd xs \<noteq> 0x75)"
  shows "afterC (0x61 # xs) = iastToDevanagari xs"
proof (cases xs)
  case Nil
  then show ?thesis by (simp add: afterC_def afterConsonant_def i2d_sign_a)
next
  case (Cons z zs)
  with assms have "map_of i2d_vowelSigns [0x61, z] = None"
    using i2d_sign2[of "0x61" z] by (cases "map_of i2d_vowelSigns [0x61, z]") auto
  with Cons show ?thesis by (simp add: afterC_def afterConsonant_def i2d_sign_a)
qed

lemma afterC_plain:
  assumes "map_of i2d_vowelSigns [y] = None" "y \<noteq> 0x61"
  shows "afterC (y # xs)
           = (if map_of i2d_consonants [y] \<noteq> None \<or> isWordBoundary y then [0x94D] else [])
             @ iastToDevanagari (y # xs)"
proof -
  have "map_of i2d_vowelSigns [y, z] = None" for z
    using assms(2) i2d_sign2[of y z] by (cases "map_of i2d_vowelSigns [y, z]") auto
  with assms i2d_consonant_ahead[of y xs] show ?thesis
    by (cases xs) (simp_all add: afterC_def afterConsonant_def)
qed

section \<open>Script converter: unrecognized code units\<close>

text \<open>
  A code unit is unrecognized by a converter when it occurs in no key of the converter's
  four lookup objects (and, for \<open>devanagariToIAST\<close>, is not the virama).
\<close>

definition unrecognizedD :: "cu \<Rightarrow> bool" where
  "unrecognizedD c \<longleftrightarrow>
     c \<notin> set (concat (map fst (d2i_vowels @ d2i_vowelSigns @ d2i_consonants @ d2i_special)))
     \<and> c \<noteq> 0x94D"

definition unrecognizedI :: "cu \<Rightarrow> bool" where
  "unrecognizedI c \<longleftrightarrow>
     c \<notin> set (concat (map fst (i2d_vowels @ i2d_vowelSigns @ i2d_consonants @ i2d_special)))"

lemma lookup_key_units:
  "map_of tbl k = Some v \<Longrightarrow> c \<in> set k \<Longrightarrow> c \<in> set (concat (map fst tbl))"
  by (auto dest!: map_of_SomeD intro!: bexI[where x = "(k, v)"])

lemma lookup_unrecognized:
  assumes "c \<notin> set (concat (map fst tbl))" "c \<in> set k"
  shows "map_of tbl k = None"
  using assms lookup_key_units[of tbl k _ c] by (cases "map_of tbl k") auto

lemma unrecognizedD_lookups:
  assumes "unrecognizedD c"
  shows "map_of d2i_vowels [c] = None" "map_of d2i_vowelSigns [c] = None"
    "map_of d2i_consonants [c] = None" "map_of d2i_special [c] = None" "c \<noteq> 0x94D"
    "c \<noteq> 0x950"
proof -
  from assms show "map_of d2i_vowels [c] = None" "map_of d2i_vowelSigns [c] = None"
    "map_of d2i_consonants [c] = None" "map_of d2i_special [c] = None" "c \<noteq> 0x94D"
    by (auto simp: unrecognizedD_def intro!: lookup_unrecognized)
  with d2i_om show "c \<noteq> 0x950" by auto
qed

lemma unrecognizedI_lookups:
  assumes "unrecognizedI c"
  shows "map_of i2d_vowels [c] = None" "map_of i2d_vowelSigns [c] = None"
    "map_of i2d_consonants [c] = None" "map_of i2d_special [c] = None"
    "map_of i2d_vowels [x, c] = None" "map_of i2d_vowelSigns [x, c] = None"
    "map_of i2d_consonants [x, c] = None"
  using assms by (auto simp: unrecognizedI_def intro!: lookup_unrecognized)

lemma unrecognizedI_letters:
  assumes "unrecognizedI c"
  shows "c \<noteq> 0x61" "c \<noteq> 0x69" "c \<noteq> 0x75" "c \<noteq> 0x68"
proof -
  have "map_of i2d_vowels [0x61] \<noteq> None" "map_of i2d_vowels [0x69] \<noteq> None"
    "map_of i2d_vowels [0x75] \<noteq> None" "map_of i2d_consonants [0x68] \<noteq> None"
    by (simp_all add: i2d_vowels_def i2d_consonants_def)
  with unrecognizedI_lookups[OF assms] show "c \<noteq> 0x61" "c \<noteq> 0x69" "c \<noteq> 0x75" "c \<noteq> 0x68"
    by auto
qed

subsection \<open>devanagariToIAST copies an unrecognized code unit\<close>

lemma devanagariToIAST_pass_context:
  assumes U: "unrecognizedD c"
  shows "\<exists>pre. \<forall>S. devanagariToIAST (xs @ c # S) = pre @ c # devanagariToIAST S"
proof (induction "length xs" arbitrary: xs rule: less_induct)
  case less
  note look = unrecognizedD_lookups[OF U]
  have base: "devanagariToIAST (c # S) = c # devanagariToIAST S" for S
    using look by (intro g_other) auto
  show ?case
  proof (cases xs)
    case Nil
    with base show ?thesis by (intro exI[of _ "[]"]) simp
  next
    case (Cons x xs')
    from less[of xs'] Cons obtain p1
      where p1: "\<And>S. devanagariToIAST (xs' @ c # S) = p1 @ c # devanagariToIAST S" by auto
    show ?thesis
    proof (cases "map_of d2i_vowels [x]")
      case (Some v)
      have "devanagariToIAST (xs @ c # S) = (v @ p1) @ c # devanagariToIAST S" for S
        using g_vowel[OF Some] p1 Cons by simp
      then show ?thesis by blast
    next
      case nv: None
      show ?thesis
      proof (cases "map_of d2i_consonants [x]")
        case (Some k)
        show ?thesis
        proof (cases xs')
          case Nil
          have "devanagariToIAST (xs @ c # S) = (k @ [0x61]) @ c # devanagariToIAST S" for S
            using g_cons_inherent[OF Some look(2,5)] base Cons Nil by simp
          then show ?thesis by blast
        next
          case (Cons y xs'')
          from less[of xs''] Cons \<open>xs = x # xs'\<close> obtain p2
            where p2: "\<And>S. devanagariToIAST (xs'' @ c # S) = p2 @ c # devanagariToIAST S"
            by auto
          show ?thesis
          proof (cases "map_of d2i_vowelSigns [y]")
            case sg: (Some v)
            have "devanagariToIAST (xs @ c # S) = (k @ v @ p2) @ c # devanagariToIAST S" for S
              using g_cons_sign[OF Some sg] p2 Cons \<open>xs = x # xs'\<close> by simp
            then show ?thesis by blast
          next
            case nsg: None
            show ?thesis
            proof (cases "y = 0x94D")
              case True
              have "devanagariToIAST (xs @ c # S) = (k @ p2) @ c # devanagariToIAST S" for S
                using g_cons_virama[OF Some] p2 Cons \<open>xs = x # xs'\<close> True by simp
              then show ?thesis by blast
            next
              case False
              have "devanagariToIAST (xs @ c # S) = (k @ [0x61] @ p1) @ c # devanagariToIAST S"
                for S
                using g_cons_inherent[OF Some nsg False] p1 Cons \<open>xs = x # xs'\<close> by simp
              then show ?thesis by blast
            qed
          qed
        qed
      next
        case nc: None
        show ?thesis
        proof (cases "map_of d2i_vowelSigns [x]")
          case (Some v)
          have "devanagariToIAST (xs @ c # S) = (v @ p1) @ c # devanagariToIAST S" for S
            using g_sign[OF Some] p1 Cons by simp
          then show ?thesis by blast
        next
          case ns: None
          show ?thesis
          proof (cases "map_of d2i_special [x]")
            case (Some s)
            have "devanagariToIAST (xs @ c # S) = (s @ p1) @ c # devanagariToIAST S" for S
              using g_special[OF Some] p1 Cons by simp
            then show ?thesis by blast
          next
            case nsp: None
            show ?thesis
            proof (cases "x = 0x94D")
              case True
              have "devanagariToIAST (xs @ c # S) = p1 @ c # devanagariToIAST S" for S
                using g_virama p1 Cons True by simp
              then show ?thesis by blast
            next
              case False
              have x950: "x \<noteq> 0x950" using nv d2i_om by auto
              have "devanagariToIAST (xs @ c # S) = (x # p1) @ c # devanagariToIAST S" for S
                using g_other[OF x950 nv nc ns nsp False] p1 Cons by simp
              then show ?thesis by blast
            qed
          qed
        qed
      qed
    qed
  qed
qed


subsection \<open>iastToDevanagari copies an unrecognized code unit\<close>

lemma i2d_sign_ai_au:
  "map_of i2d_vowelSigns [0x61, 0x69] \<noteq> None" "map_of i2d_vowelSigns [0x61, 0x75] \<noteq> None"
  by (simp_all add: i2d_vowelSigns_def)

lemma iastToDevanagari_pass_context:
  assumes U: "unrecognizedI c"
  shows "(\<exists>pre. \<forall>S. iastToDevanagari (xs @ c # S) = pre @ c # iastToDevanagari S)
         \<and> (\<exists>pre. \<forall>S. afterC (xs @ c # S) = pre @ c # iastToDevanagari S)"
proof (induction "length xs" arbitrary: xs rule: less_induct)
  case less
  note look = unrecognizedI_lookups[OF U]
  note lett = unrecognizedI_letters[OF U]
  have base: "iastToDevanagari (c # S) = c # iastToDevanagari S" for S
    using look by (intro f_other) auto
  define vc :: jsstring where "vc = (if isWordBoundary c then [0x94D] else [])"
  have baseC: "afterC (c # S) = vc @ c # iastToDevanagari S" for S
    using afterC_plain[OF look(2) lett(1), of S] look(3) base by (simp add: vc_def)
  have ihP: "\<exists>pre. \<forall>S. iastToDevanagari (zs @ c # S) = pre @ c # iastToDevanagari S"
    if "length zs < length xs" for zs using less[OF that] by blast
  have ihQ: "\<exists>pre. \<forall>S. afterC (zs @ c # S) = pre @ c # iastToDevanagari S"
    if "length zs < length xs" for zs using less[OF that] by blast
  have P: "\<exists>pre. \<forall>S. iastToDevanagari (xs @ c # S) = pre @ c # iastToDevanagari S"
  proof (cases xs)
    case Nil
    with base show ?thesis by (intro exI[of _ "[]"]) simp
  next
    case (Cons x xs')
    from ihP[of xs'] Cons obtain p1
      where p1: "\<And>S. iastToDevanagari (xs' @ c # S) = p1 @ c # iastToDevanagari S" by auto
    from ihQ[of xs'] Cons obtain q1
      where q1: "\<And>S. afterC (xs' @ c # S) = q1 @ c # iastToDevanagari S" by auto
    show ?thesis
    proof (cases "map_of i2d_consonants [x]")
      case (Some g)
      show ?thesis
      proof (cases xs')
        case Nil
        have "iastToDevanagari (xs @ c # S) = (g @ vc) @ c # iastToDevanagari S" for S
          using f_consonant1[OF Some, of "c # S"] look(7)[of x] baseC Cons Nil by simp
        then show ?thesis by blast
      next
        case xs': (Cons y xs'')
        show ?thesis
        proof (cases "map_of i2d_consonants [x, y]")
          case None
          have "iastToDevanagari (xs @ c # S) = (g @ q1) @ c # iastToDevanagari S" for S
            using f_consonant1[OF Some, of "xs' @ c # S"] None q1 Cons xs' by simp
          then show ?thesis by blast
        next
          case g2: (Some g2)
          show ?thesis
          proof (cases "xs'' \<noteq> [] \<and> hd xs'' = 0x61")
            case True
            then obtain xs3 where xs3: "xs'' = 0x61 # xs3" by (cases xs'') auto
            from ihP[of xs3] Cons xs' xs3 obtain p3
              where p3: "\<And>S. iastToDevanagari (xs3 @ c # S) = p3 @ c # iastToDevanagari S"
              by auto
            have "iastToDevanagari (xs @ c # S) = (g2 @ p3) @ c # iastToDevanagari S" for S
              using f_aspirated_a[OF g2, of "xs3 @ c # S"] p3 Cons xs' xs3 by simp
            then show ?thesis by blast
          next
            case False
            from ihQ[of xs''] Cons xs' obtain q2
              where q2: "\<And>S. afterC (xs'' @ c # S) = q2 @ c # iastToDevanagari S" by auto
            have hd: "hd (xs'' @ c # S) \<noteq> 0x61" for S
              using False lett(1) by (cases xs'') auto
            have "iastToDevanagari (xs @ c # S) = (g2 @ q2) @ c # iastToDevanagari S" for S
              using f_consonant2[OF g2, of "xs'' @ c # S"] hd[of S] q2 Cons xs' by simp
            then show ?thesis by blast
          qed
        qed
      qed
    next
      case nc: None
      have one: "\<exists>pre. \<forall>S. iastToDevanagari (xs @ c # S) = pre @ c # iastToDevanagari S"
        if nv2: "xs' = [] \<or> map_of i2d_vowels [x, hd xs'] = None"
      proof -
        have nv2': "map_of i2d_vowels [x, hd (xs' @ c # S)] = None" for S
          using nv2 look(5)[of x] by (cases xs') auto
        show ?thesis
        proof (cases "map_of i2d_vowels [x]")
          case (Some v)
          have "iastToDevanagari (xs @ c # S) = (v @ p1) @ c # iastToDevanagari S" for S
            using f_vowel1[OF Some, of "xs' @ c # S"] nv2'[of S] p1 Cons by simp
          then show ?thesis by blast
        next
          case nv: None
          show ?thesis
          proof (cases "map_of i2d_special [x]")
            case (Some s)
            have "iastToDevanagari (xs @ c # S) = (s @ p1) @ c # iastToDevanagari S" for S
              using f_special[OF Some nv, of "xs' @ c # S"] p1 Cons by simp
            then show ?thesis by blast
          next
            case None
            have "iastToDevanagari (xs @ c # S) = (x # p1) @ c # iastToDevanagari S" for S
              using f_other[OF nc nv None, of "xs' @ c # S"] p1 Cons by simp
            then show ?thesis by blast
          qed
        qed
      qed
      show ?thesis
      proof (cases xs')
        case Nil
        then show ?thesis using one by simp
      next
        case xs': (Cons y xs'')
        show ?thesis
        proof (cases "map_of i2d_vowels [x, y]")
          case None
          with xs' show ?thesis using one by simp
        next
          case (Some v)
          from ihP[of xs''] Cons xs' obtain p2
            where p2: "\<And>S. iastToDevanagari (xs'' @ c # S) = p2 @ c # iastToDevanagari S"
            by auto
          have "iastToDevanagari (xs @ c # S) = (v @ p2) @ c # iastToDevanagari S" for S
            using f_vowel2[OF Some, of "xs'' @ c # S"] p2 Cons xs' by simp
          then show ?thesis by blast
        qed
      qed
    qed
  qed
  from P obtain p0
    where p0: "\<And>S. iastToDevanagari (xs @ c # S) = p0 @ c # iastToDevanagari S" by auto
  have Q: "\<exists>pre. \<forall>S. afterC (xs @ c # S) = pre @ c # iastToDevanagari S"
  proof (cases xs)
    case Nil
    with baseC show ?thesis by (intro exI[of _ vc]) simp
  next
    case (Cons y xs')
    from ihP[of xs'] Cons obtain p1
      where p1: "\<And>S. iastToDevanagari (xs' @ c # S) = p1 @ c # iastToDevanagari S" by auto
    have single: "\<exists>pre. \<forall>S. afterC (xs @ c # S) = pre @ c # iastToDevanagari S"
      if ns2: "xs' = [] \<or> map_of i2d_vowelSigns [y, hd xs'] = None"
    proof (cases "map_of i2d_vowelSigns [y]")
      case (Some s)
      have "afterC (xs @ c # S) = (s @ p1) @ c # iastToDevanagari S" for S
        using afterC_sign1[OF Some, of "xs' @ c # S"] p1 Cons by simp
      then show ?thesis by blast
    next
      case None
      show ?thesis
      proof (cases "y = 0x61")
        case True
        have "hd (xs' @ c # S) \<noteq> 0x69 \<and> hd (xs' @ c # S) \<noteq> 0x75" for S
          using ns2 lett True i2d_sign_ai_au by (cases xs') auto
        then have "afterC (xs @ c # S) = p1 @ c # iastToDevanagari S" for S
          using afterC_a[of "xs' @ c # S"] p1 Cons True by simp
        then show ?thesis by blast
      next
        case False
        define vy :: jsstring where "vy = (if map_of i2d_consonants [y] \<noteq> None \<or> isWordBoundary y
                               then [0x94D] else [])"
        have "afterC (xs @ c # S) = (vy @ p0) @ c # iastToDevanagari S" for S
          using afterC_plain[OF None False, of "xs' @ c # S"] p0[of S] Cons
          by (simp add: vy_def)
        then show ?thesis by blast
      qed
    qed
    show ?thesis
    proof (cases xs')
      case Nil
      then show ?thesis using single by simp
    next
      case xs': (Cons z xs'')
      show ?thesis
      proof (cases "map_of i2d_vowelSigns [y, z]")
        case None
        with xs' show ?thesis using single by simp
      next
        case (Some s)
        from ihP[of xs''] Cons xs' obtain p2
          where p2: "\<And>S. iastToDevanagari (xs'' @ c # S) = p2 @ c # iastToDevanagari S"
          by auto
        have "afterC (xs @ c # S) = (s @ p2) @ c # iastToDevanagari S" for S
          using afterC_sign2[OF Some, of "xs'' @ c # S"] p2 Cons xs' by simp
        then show ?thesis by blast
      qed
    qed
  qed
  from P Q show ?case by blast
qed


text \<open>
  Claim C9 (unrecognized input passes through). A code unit that occurs in no key of the
  lookup objects of \<open>devanagariToIAST\<close> (vowels, vowel signs, consonants, special) and is
  not the virama is copied unchanged by \<open>devanagariToIAST\<close>, alone and in every context:
  the output for the text up to it ends with it, and the output for the whole text goes on
  with the conversion of the rest. The same holds for \<open>iastToDevanagari\<close> and its lookup
  objects. Nothing is dropped or rejected.
\<close>

theorem unrecognized_pass_through:
  "(unrecognizedD c \<longrightarrow>
      devanagariToIAST [c] = [c]
      \<and> (\<exists>pre. devanagariToIAST (xs @ [c]) = pre @ [c]
               \<and> devanagariToIAST (xs @ c # ys) = pre @ c # devanagariToIAST ys))
   \<and> (unrecognizedI c \<longrightarrow>
      iastToDevanagari [c] = [c]
      \<and> (\<exists>pre. iastToDevanagari (xs @ [c]) = pre @ [c]
               \<and> iastToDevanagari (xs @ c # ys) = pre @ c # iastToDevanagari ys))"
proof (intro conjI impI)
  assume U: "unrecognizedD c"
  from devanagariToIAST_pass_context[OF U, of "[]"]
  show "devanagariToIAST [c] = [c]"
    using g_other[of c "[]"] unrecognizedD_lookups[OF U] by (simp add: devanagariToIAST_Nil)
  from devanagariToIAST_pass_context[OF U, of xs] obtain pre
    where "\<And>S. devanagariToIAST (xs @ c # S) = pre @ c # devanagariToIAST S" by auto
  from this[of "[]"] this[of ys]
  show "\<exists>pre. devanagariToIAST (xs @ [c]) = pre @ [c]
               \<and> devanagariToIAST (xs @ c # ys) = pre @ c # devanagariToIAST ys"
    by (auto simp: devanagariToIAST_Nil)
next
  assume U: "unrecognizedI c"
  show "iastToDevanagari [c] = [c]"
    using f_other[of c "[]"] unrecognizedI_lookups[OF U] by (simp add: iastToDevanagari_Nil)
  from iastToDevanagari_pass_context[OF U, of xs] obtain pre
    where "\<And>S. iastToDevanagari (xs @ c # S) = pre @ c # iastToDevanagari S" by auto
  from this[of "[]"] this[of ys]
  show "\<exists>pre. iastToDevanagari (xs @ [c]) = pre @ [c]
               \<and> iastToDevanagari (xs @ c # ys) = pre @ c # iastToDevanagari ys"
    by (auto simp: iastToDevanagari_Nil)
qed

text \<open>
  The letter \<open>x\<close> (U+0078) is in no lookup object of either converter. After the consonant
  U+0915 \<open>devanagariToIAST\<close> gives \<open>kax\<close>, and \<open>kaxk\<close> when U+0915 follows; after \<open>k\<close>
  \<open>iastToDevanagari\<close> gives U+0915 \<open>x\<close>, and U+0915 \<open>x\<close> U+0915 U+094D when \<open>k\<close> follows.
\<close>

theorem unrecognized_pass_through_witness:
  "unrecognizedD 0x78 \<and> unrecognizedI 0x78
   \<and> devanagariToIAST [0x78] = [0x78]
   \<and> (\<exists>pre. devanagariToIAST ([0x915] @ [0x78]) = pre @ [0x78]
            \<and> devanagariToIAST ([0x915] @ 0x78 # [0x915]) = pre @ 0x78 # devanagariToIAST [0x915])
   \<and> devanagariToIAST [0x915, 0x78, 0x915] = [0x6B, 0x61, 0x78, 0x6B]
   \<and> iastToDevanagari [0x78] = [0x78]
   \<and> (\<exists>pre. iastToDevanagari ([0x6B] @ [0x78]) = pre @ [0x78]
            \<and> iastToDevanagari ([0x6B] @ 0x78 # [0x6B]) = pre @ 0x78 # iastToDevanagari [0x6B])
   \<and> iastToDevanagari [0x6B, 0x78, 0x6B] = [0x915, 0x78, 0x915, 0x94D]"
proof -
  have uD: "unrecognizedD 0x78"
    by (simp add: unrecognizedD_def d2i_vowels_def d2i_vowelSigns_def d2i_consonants_def
        d2i_special_def)
  have uI: "unrecognizedI 0x78"
    by (simp add: unrecognizedI_def i2d_vowels_def i2d_vowelSigns_def i2d_consonants_def
        i2d_special_def)
  have e1: "devanagariToIAST [0x915, 0x78, 0x915] = [0x6B, 0x61, 0x78, 0x6B]"
    by (simp add: converter_eval)
  have e2: "iastToDevanagari [0x6B, 0x78, 0x6B] = [0x915, 0x78, 0x915, 0x94D]"
    by (simp add: converter_eval)
  from unrecognized_pass_through[of "0x78" "[0x915]" "[0x915]"] uD uI
  have d: "devanagariToIAST [0x78] = [0x78]
      \<and> (\<exists>pre. devanagariToIAST ([0x915] @ [0x78]) = pre @ [0x78]
            \<and> devanagariToIAST ([0x915] @ 0x78 # [0x915]) = pre @ 0x78 # devanagariToIAST [0x915])"
    by blast
  from unrecognized_pass_through[of "0x78" "[0x6B]" "[0x6B]"] uD uI
  have i: "iastToDevanagari [0x78] = [0x78]
      \<and> (\<exists>pre. iastToDevanagari ([0x6B] @ [0x78]) = pre @ [0x78]
            \<and> iastToDevanagari ([0x6B] @ 0x78 # [0x6B]) = pre @ 0x78 # iastToDevanagari [0x6B])"
    by blast
  from uD uI e1 e2 d i show ?thesis by blast
qed

section \<open>Script converter: conjuncts\<close>

lemma d2i_consonant_inverse:
  assumes "map_of d2i_consonants [c] = Some k" "c \<noteq> 0x933"
  shows "map_of i2d_consonants k = Some [c]"
proof -
  from assms(1) have "([c], k) \<in> set d2i_consonants" by (rule map_of_SomeD)
  then show ?thesis
    using assms(2) unfolding d2i_consonants_def list.set insert_iff empty_iff
    by (elim disjE FalseE; simp add: i2d_consonants_def)
qed

lemma i2d_consonant_shape:
  assumes "map_of i2d_consonants k = Some g"
  shows "(\<exists>x. k = [x]) \<or> (\<exists>x. k = [x, 0x68])"
proof -
  from assms have "(k, g) \<in> set i2d_consonants" by (rule map_of_SomeD)
  then show ?thesis
    unfolding i2d_consonants_def list.set insert_iff empty_iff
    by (elim disjE FalseE; simp)
qed

lemma i2d_consonant_head:
  assumes "map_of i2d_consonants k = Some g"
  shows "map_of i2d_consonants [hd k] \<noteq> None"
  using i2d_consonant_shape[OF assms] assms i2d_consonant2[of "hd k" "0x68" g] by auto

text \<open>A consonant key alone is converted to its glyph and a virama.\<close>

lemma f_consonant_alone:
  assumes "map_of i2d_consonants k = Some g"
  shows "iastToDevanagari k = g @ [0x94D]"
  using i2d_consonant_shape[OF assms] assms f_consonant1[of _ g "[]"] f_consonant2[of _ _ g "[]"]
  by (auto simp: afterC_end)

text \<open>After a consonant, a further consonant key gets a virama before it.\<close>

lemma afterC_consonant:
  assumes "map_of i2d_consonants k = Some g"
  shows "afterC (k @ xs) = 0x94D # iastToDevanagari (k @ xs)"
proof -
  obtain y ks where k: "k = y # ks" using i2d_consonant_shape[OF assms] by auto
  from i2d_consonant_head[OF assms] k obtain gy where gy: "map_of i2d_consonants [y] = Some gy"
    by auto
  from i2d_consonant1[OF gy] have "map_of i2d_vowelSigns [y] = None" "y \<noteq> 0x61" by simp_all
  from afterC_plain[OF this, of "ks @ xs"] gy k show ?thesis by simp
qed

lemma f_two_consonants:
  assumes k1: "map_of i2d_consonants k1 = Some g1" and k2: "map_of i2d_consonants k2 = Some g2"
    and nf: "map_of i2d_consonants [last k1, hd k2] = None"
  shows "iastToDevanagari (k1 @ k2) = g1 @ [0x94D] @ g2 @ [0x94D]"
proof -
  have ac: "afterC k2 = 0x94D # g2 @ [0x94D]"
    using afterC_consonant[OF k2, of "[]"] f_consonant_alone[OF k2] by simp
  obtain y ks where k2': "k2 = y # ks" using i2d_consonant_shape[OF k2] by auto
  from i2d_consonant_head[OF k2] k2' obtain gy where gy: "map_of i2d_consonants [y] = Some gy"
    by auto
  from i2d_consonant1[OF gy] have ya: "y \<noteq> 0x61" by simp
  from i2d_consonant_shape[OF k1] show ?thesis
  proof
    assume "\<exists>x. k1 = [x]"
    then obtain x where x: "k1 = [x]" by auto
    with nf k2' have "map_of i2d_consonants [x, hd k2] = None" by simp
    with f_consonant1[of x g1 k2] k1 x ac show ?thesis by simp
  next
    assume "\<exists>x. k1 = [x, 0x68]"
    then obtain x where x: "k1 = [x, 0x68]" by auto
    with f_consonant2[of x "0x68" g1 k2] k1 ya k2' ac show ?thesis by simp
  qed
qed

text \<open>
  Claim C2 (conjunct preservation), amended. For every two consonant glyphs \<open>c1\<close>, \<open>c2\<close> of
  the consonant object other than U+0933, with Latin forms \<open>k1\<close>, \<open>k2\<close> such that the last
  letter of \<open>k1\<close> and the first letter of \<open>k2\<close> do not spell an aspirated consonant: the
  conjunct \<open>c1\<close> + virama + \<open>c2\<close> is converted to \<open>k1 k2\<close>, with no inherent \<open>a\<close>, and
  converting back gives \<open>c1\<close> + virama + \<open>c2\<close> + virama: both consonants and the virama
  between them are reproduced and no vowel is introduced, and a virama is added at the
  end. The conjunct that already ends in a virama is reproduced exactly.
\<close>

theorem conjunct_round_trip:
  assumes "map_of d2i_consonants [c1] = Some k1" "c1 \<noteq> 0x933"
    and "map_of d2i_consonants [c2] = Some k2" "c2 \<noteq> 0x933"
    and "map_of i2d_consonants [last k1, hd k2] = None"
  shows "devanagariToIAST [c1, 0x94D, c2] = k1 @ k2
         \<and> iastToDevanagari (devanagariToIAST [c1, 0x94D, c2]) = [c1, 0x94D, c2, 0x94D]
         \<and> iastToDevanagari (devanagariToIAST [c1, 0x94D, c2, 0x94D]) = [c1, 0x94D, c2, 0x94D]"
proof -
  have g1: "devanagariToIAST [c1, 0x94D, c2] = k1 @ k2"
    using g_cons_virama[OF assms(1), of "[c2]"] g_cons_end[OF assms(3)] by simp
  have g2: "devanagariToIAST [c1, 0x94D, c2, 0x94D] = k1 @ k2"
    using g_cons_virama[OF assms(1), of "[c2, 0x94D]"] g_cons_virama[OF assms(3), of "[]"]
    by (simp add: devanagariToIAST_Nil)
  have f: "iastToDevanagari (k1 @ k2) = [c1, 0x94D, c2, 0x94D]"
    using f_two_consonants[OF d2i_consonant_inverse[OF assms(1,2)]
        d2i_consonant_inverse[OF assms(3,4)] assms(5)] by simp
  from g1 g2 f show ?thesis by simp
qed

text \<open>
  U+0915 U+094D U+0924 (\<open>k\<close> + virama + \<open>t\<close>) is converted to \<open>kt\<close> and back to
  U+0915 U+094D U+0924 U+094D.
\<close>

theorem conjunct_round_trip_witness:
  "map_of d2i_consonants [0x915] = Some [0x6B] \<and> (0x915::nat) \<noteq> 0x933
   \<and> map_of d2i_consonants [0x924] = Some [0x74] \<and> (0x924::nat) \<noteq> 0x933
   \<and> map_of i2d_consonants [last [0x6B], hd [0x74]] = None
   \<and> devanagariToIAST [0x915, 0x94D, 0x924] = [0x6B] @ [0x74]
   \<and> iastToDevanagari (devanagariToIAST [0x915, 0x94D, 0x924]) = [0x915, 0x94D, 0x924, 0x94D]
   \<and> iastToDevanagari (devanagariToIAST [0x915, 0x94D, 0x924, 0x94D])
       = [0x915, 0x94D, 0x924, 0x94D]"
proof -
  have a: "map_of d2i_consonants [0x915] = Some [0x6B]" by (simp add: d2i_consonants_def)
  have b: "(0x915::nat) \<noteq> 0x933" by simp
  have c: "map_of d2i_consonants [0x924] = Some [0x74]" by (simp add: d2i_consonants_def)
  have d: "(0x924::nat) \<noteq> 0x933" by simp
  have e: "map_of i2d_consonants [last [0x6B], hd [0x74]] = None"
    by (simp add: i2d_consonants_def)
  from conjunct_round_trip[OF a b c d e] a b c d e show ?thesis by blast
qed

text \<open>
  Claim C2, as the claim states it, fails: the conjunct U+0915 U+094D U+0924 comes back
  with a virama added, and the conjunct U+0915 U+094D U+0939 (\<open>k\<close> + virama + \<open>h\<close>), also
  when it ends in a virama, comes back as the aspirated consonant U+0916 (\<open>kh\<close>).
\<close>

theorem conjunct_not_reproduced:
  "iastToDevanagari (devanagariToIAST [0x915, 0x94D, 0x924]) = [0x915, 0x94D, 0x924, 0x94D]
   \<and> iastToDevanagari (devanagariToIAST [0x915, 0x94D, 0x924]) \<noteq> [0x915, 0x94D, 0x924]
   \<and> iastToDevanagari (devanagariToIAST [0x915, 0x94D, 0x939]) = [0x916, 0x94D]
   \<and> iastToDevanagari (devanagariToIAST [0x915, 0x94D, 0x939, 0x94D]) = [0x916, 0x94D]"
  by (simp add: converter_eval)

section \<open>Script converter: round trip\<close>

subsection \<open>The two directions use inverse lookup objects\<close>

lemma i2d_consonant_glyph:
  assumes "map_of i2d_consonants k = Some gl"
  shows "\<exists>G. gl = [G] \<and> map_of d2i_consonants [G] = Some k"
proof -
  from assms have "(k, gl) \<in> set i2d_consonants" by (rule map_of_SomeD)
  then show ?thesis
    unfolding i2d_consonants_def list.set insert_iff empty_iff
    by (elim disjE FalseE; simp add: d2i_consonants_def)
qed

lemma i2d_sign_glyph:
  assumes "map_of i2d_vowelSigns k = Some sl"
  shows "\<exists>S. sl = [S] \<and> map_of d2i_vowelSigns [S] = Some k"
proof -
  from assms have "(k, sl) \<in> set i2d_vowelSigns" by (rule map_of_SomeD)
  then show ?thesis
    unfolding i2d_vowelSigns_def list.set insert_iff empty_iff
    by (elim disjE FalseE; simp add: d2i_vowelSigns_def)
qed

lemma i2d_vowel_glyph:
  assumes "map_of i2d_vowels k = Some vl"
  shows "\<exists>V. vl = [V] \<and> (map_of d2i_vowels [V] = Some k \<or> map_of d2i_special [V] = Some k)"
proof -
  from assms have "(k, vl) \<in> set i2d_vowels" by (rule map_of_SomeD)
  then show ?thesis
    unfolding i2d_vowels_def list.set insert_iff empty_iff
    by (elim disjE FalseE; simp add: d2i_vowels_def d2i_special_def)
qed

lemma i2d_vowel2_second:
  assumes "map_of i2d_vowels [x, y] = Some vl"
  shows "y = 0x69 \<or> y = 0x75 \<or> y = 0x1E41"
proof -
  from assms have "([x, y], vl) \<in> set i2d_vowels" by (rule map_of_SomeD)
  then show ?thesis
    unfolding i2d_vowels_def list.set insert_iff empty_iff
    by (elim disjE FalseE; simp)
qed

text \<open>The ASCII digits are converted to the Devanagari digits, which no lookup object holds.\<close>

definition dmap :: "cu \<Rightarrow> cu" where
  "dmap x = (if 0x30 \<le> x \<and> x \<le> 0x39 then x + 0x936 else x)"

lemma ascii_digit_cases:
  "0x30 \<le> x \<Longrightarrow> x \<le> 0x39 \<Longrightarrow>
     x \<in> {0x30, 0x31, 0x32, 0x33, 0x34, 0x35, 0x36, 0x37, 0x38, 0x39::nat}"
  by simp arith

lemma ascii_digit_facts:
  assumes "0x30 \<le> x" "x \<le> 0x39"
  shows "map_of i2d_consonants [x] = None \<and> map_of i2d_vowels [x] = None
         \<and> map_of i2d_vowelSigns [x] = None \<and> \<not> isWordBoundary x
         \<and> map_of i2d_special [x] = Some [dmap x]
         \<and> unrecognizedD (dmap x) \<and> unrecognizedI (dmap x) \<and> \<not> isWordBoundary (dmap x)
         \<and> dmap x \<noteq> 0x61 \<and> dmap x \<noteq> 0x69 \<and> dmap x \<noteq> 0x75 \<and> dmap x \<noteq> 0x68
         \<and> dmap x \<noteq> 0x1E41"
  using ascii_digit_cases[OF assms]
  unfolding insert_iff empty_iff
  by (elim disjE FalseE;
      simp add: dmap_def i2d_consonants_def i2d_vowels_def i2d_vowelSigns_def i2d_special_def
        isWordBoundary_def isWhitespace_def unrecognizedD_def unrecognizedI_def
        d2i_vowels_def d2i_vowelSigns_def d2i_consonants_def d2i_special_def)

lemma i2d_special_glyph:
  assumes "map_of i2d_special [x] = Some sl" "map_of i2d_vowels [x] = None" "x \<noteq> 0x1E43"
  shows "\<exists>S. sl = [S]
             \<and> ((map_of d2i_special [S] = Some [x] \<and> dmap x = x)
                 \<or> (0x30 \<le> x \<and> x \<le> 0x39 \<and> S = dmap x))"
proof -
  from assms(1) have "([x], sl) \<in> set i2d_special" by (rule map_of_SomeD)
  then show ?thesis
    using assms(2,3) unfolding i2d_special_def list.set insert_iff empty_iff
    by (elim disjE FalseE; simp add: d2i_special_def i2d_vowels_def dmap_def)
qed

lemma dmap_no_special: "map_of i2d_special [x] = None \<Longrightarrow> dmap x = x"
  using ascii_digit_facts[of x] by (auto simp: dmap_def)

lemma dmap_consonant: "map_of i2d_consonants [x] = Some gl \<Longrightarrow> dmap x = x"
  using ascii_digit_facts[of x] by (auto simp: dmap_def)

lemma dmap_vowel: "map_of i2d_vowels [x] = Some vl \<Longrightarrow> dmap x = x"
  using ascii_digit_facts[of x] by (auto simp: dmap_def)

lemma dmap_boundary: "isWordBoundary x \<Longrightarrow> dmap x = x"
  using ascii_digit_facts[of x] by (auto simp: dmap_def)

lemma dmap_cases: "dmap x = x \<or> (0x30 \<le> x \<and> x \<le> 0x39)"
  by (simp add: dmap_def)

text \<open>The glyph of a consonant, of a vowel and of a special sign is no vowel sign and no virama.\<close>

lemma d2i_consonant_no_sign:
  assumes "map_of d2i_consonants [G] = Some c"
  shows "map_of d2i_vowelSigns [G] = None" "G \<noteq> 0x94D"
  using assms d2i_consonant_other[OF assms] d2i_vowelSign_other[of G]
  by (cases "map_of d2i_vowelSigns [G]"; auto)+

lemma d2i_vowel_no_sign:
  assumes "map_of d2i_vowels [V] = Some v"
  shows "map_of d2i_vowelSigns [V] = None" "V \<noteq> 0x94D"
  using assms d2i_vowelSign_other[of V] d2i_virama_other
  by (cases "map_of d2i_vowelSigns [V]"; auto)+

lemma d2i_special_no_sign:
  assumes "map_of d2i_special [S] = Some s"
  shows "map_of d2i_vowelSigns [S] = None" "S \<noteq> 0x94D"
  using d2i_special_other[OF assms] by simp_all

text \<open>Whatever follows the glyph of a consonant, its conversion starts with the consonant.\<close>

lemma g_consonant_any:
  assumes "map_of d2i_consonants [G] = Some c"
  shows "\<exists>r. devanagariToIAST (G # ds) = c @ r"
proof (cases ds)
  case Nil
  with g_cons_end[OF assms] show ?thesis by simp
next
  case (Cons y ys)
  show ?thesis
  proof (cases "map_of d2i_vowelSigns [y]")
    case (Some v)
    with Cons g_cons_sign[OF assms Some, of ys] show ?thesis by simp
  next
    case None
    show ?thesis
    proof (cases "y = 0x94D")
      case True
      with Cons g_cons_virama[OF assms, of ys] show ?thesis by simp
    next
      case False
      with Cons g_cons_inherent[OF assms None False, of ys] show ?thesis by simp
    qed
  qed
qed

text \<open>
  A Latin-side text: no code unit of a key of the lookup objects of \<open>devanagariToIAST\<close>, and
  no U+1E43.
\<close>

definition latinText :: "jsstring \<Rightarrow> bool" where
  "latinText t \<longleftrightarrow> (\<forall>c \<in> set t. unrecognizedD c \<and> c \<noteq> 0x1E43)"

lemma latinText_Cons: "latinText (x # xs) \<longleftrightarrow> unrecognizedD x \<and> x \<noteq> 0x1E43 \<and> latinText xs"
  by (auto simp: latinText_def)

lemma latinText_Nil: "latinText []"
  by (simp add: latinText_def)

text \<open>
  The first glyph of the conversion of a Latin-side text is no vowel sign and no virama, and
  converting back gives a text that starts with the first code unit of the text (a digit
  comes back as the Devanagari digit).
\<close>

lemma first_unit:
  assumes lt: "latinText (x # xs)"
  shows "\<exists>G r. iastToDevanagari (x # xs) = G # r \<and> map_of d2i_vowelSigns [G] = None
           \<and> G \<noteq> 0x94D \<and> (\<forall>ds. \<exists>r'. devanagariToIAST (G # ds) = dmap x # r')"
proof -
  from lt have ux: "unrecognizedD x" and xn: "x \<noteq> 0x1E43" by (simp_all add: latinText_Cons)
  have cons_case: ?thesis
    if k: "map_of i2d_consonants k = Some gl" and hk: "k \<noteq> []" "hd k = x"
      and eq: "\<exists>r. iastToDevanagari (x # xs) = gl @ r" and dx: "dmap x = x" for k gl
  proof -
    from i2d_consonant_glyph[OF k] obtain G where G: "gl = [G]"
      "map_of d2i_consonants [G] = Some k" by blast
    from eq G obtain r where r: "iastToDevanagari (x # xs) = G # r" by auto
    have "\<exists>r'. devanagariToIAST (G # ds) = dmap x # r'" for ds
    proof -
      from g_consonant_any[OF G(2), of ds] obtain r0 where
        "devanagariToIAST (G # ds) = k @ r0" by blast
      with hk dx show ?thesis by (cases k) auto
    qed
    with r d2i_consonant_no_sign[OF G(2)] show ?thesis by blast
  qed
  have vowel_case: ?thesis
    if k: "map_of i2d_vowels k = Some vl" and hk: "k \<noteq> []" "hd k = x"
      and eq: "\<exists>r. iastToDevanagari (x # xs) = vl @ r" and dx: "dmap x = x" for k vl
  proof -
    from i2d_vowel_glyph[OF k] obtain V where V: "vl = [V]"
      "map_of d2i_vowels [V] = Some k \<or> map_of d2i_special [V] = Some k" by blast
    from eq V obtain r where r: "iastToDevanagari (x # xs) = V # r" by auto
    from V(2) have ns: "map_of d2i_vowelSigns [V] = None \<and> V \<noteq> 0x94D"
      using d2i_vowel_no_sign[of V k] d2i_special_no_sign[of V k] by blast
    have "\<exists>r'. devanagariToIAST (V # ds) = dmap x # r'" for ds
    proof -
      from V(2) have "devanagariToIAST (V # ds) = k @ devanagariToIAST ds"
        using g_vowel[of V k ds] g_special[of V k ds] by blast
      with hk dx show ?thesis by (cases k) auto
    qed
    with r ns show ?thesis by blast
  qed
  show ?thesis
  proof (cases "\<exists>y ys gl. xs = y # ys \<and> map_of i2d_consonants [x, y] = Some gl")
    case True
    then obtain y ys gl where xs: "xs = y # ys" and k: "map_of i2d_consonants [x, y] = Some gl"
      by blast
    from i2d_consonant2[OF k] obtain g1 where "map_of i2d_consonants [x] = Some g1" by auto
    then have dx: "dmap x = x" by (rule dmap_consonant)
    have "\<exists>r. iastToDevanagari (x # xs) = gl @ r"
    proof (cases "ys \<noteq> [] \<and> hd ys = 0x61")
      case True
      then obtain zs where "ys = 0x61 # zs" by (cases ys) auto
      with xs f_aspirated_a[OF k, of zs] show ?thesis by simp
    next
      case False
      then have "ys = [] \<or> hd ys \<noteq> 0x61" by blast
      from f_consonant2[OF k this] xs show ?thesis by simp
    qed
    with k dx show ?thesis by (intro cons_case[of "[x, y]" gl]) simp_all
  next
    case no2c: False
    show ?thesis
    proof (cases "\<exists>y ys vl. xs = y # ys \<and> map_of i2d_vowels [x, y] = Some vl")
      case True
      then obtain y ys vl where xs: "xs = y # ys" and k: "map_of i2d_vowels [x, y] = Some vl"
        by blast
      from i2d_vowel2[OF k] obtain v1 where "map_of i2d_vowels [x] = Some v1" by auto
      then have dx: "dmap x = x" by (rule dmap_vowel)
      have "\<exists>r. iastToDevanagari (x # xs) = vl @ r"
        using f_vowel2[OF k, of ys] xs by simp
      with k dx show ?thesis by (intro vowel_case[of "[x, y]" vl]) simp_all
    next
      case no2v: False
      show ?thesis
      proof (cases "map_of i2d_consonants [x]")
        case (Some gl)
        have "xs = [] \<or> map_of i2d_consonants [x, hd xs] = None"
          using no2c by (cases xs) auto
        from f_consonant1[OF Some this] have "\<exists>r. iastToDevanagari (x # xs) = gl @ r" by simp
        with Some dmap_consonant[OF Some] show ?thesis
          by (intro cons_case[of "[x]" gl]) simp_all
      next
        case noc: None
        show ?thesis
        proof (cases "map_of i2d_vowels [x]")
          case (Some vl)
          have "xs = [] \<or> map_of i2d_vowels [x, hd xs] = None"
            using no2v by (cases xs) auto
          from f_vowel1[OF Some this] have "\<exists>r. iastToDevanagari (x # xs) = vl @ r" by simp
          with Some dmap_vowel[OF Some] show ?thesis
            by (intro vowel_case[of "[x]" vl]) simp_all
        next
          case nov: None
          show ?thesis
          proof (cases "map_of i2d_special [x]")
            case (Some sl)
            from f_special[OF Some nov] have eq: "iastToDevanagari (x # xs) = sl @ iastToDevanagari xs" .
            from i2d_special_glyph[OF Some nov xn] obtain S where S: "sl = [S]"
              "(map_of d2i_special [S] = Some [x] \<and> dmap x = x)
                 \<or> (0x30 \<le> x \<and> x \<le> 0x39 \<and> S = dmap x)" by blast
            from S(2) show ?thesis
            proof
              assume a: "map_of d2i_special [S] = Some [x] \<and> dmap x = x"
              then have "devanagariToIAST (S # ds) = dmap x # devanagariToIAST ds" for ds
                using g_special[of S "[x]" ds] by simp
              with eq S(1) d2i_special_no_sign[of S "[x]"] a show ?thesis by auto
            next
              assume a: "0x30 \<le> x \<and> x \<le> 0x39 \<and> S = dmap x"
              with ascii_digit_facts[of x] have u: "unrecognizedD S" by simp
              note l = unrecognizedD_lookups[OF u]
              have "devanagariToIAST (S # ds) = dmap x # devanagariToIAST ds" for ds
                using g_other[OF l(6) l(1) l(3) l(2) l(4) l(5), of ds] a by simp
              with eq S(1) l(2) l(5) show ?thesis by auto
            qed
          next
            case nos: None
            from f_other[OF noc nov nos] have eq: "iastToDevanagari (x # xs) = x # iastToDevanagari xs" .
            note l = unrecognizedD_lookups[OF ux]
            have "devanagariToIAST (x # ds) = dmap x # devanagariToIAST ds" for ds
              using g_other[OF l(6) l(1) l(3) l(2) l(4) l(5), of ds] dmap_no_special[OF nos] by simp
            with eq l(2) l(5) show ?thesis by auto
          qed
        qed
      qed
    qed
  qed
qed

subsection \<open>The round trip\<close>

text \<open>The converted text does not end in a consonant glyph that carries the inherent \<open>a\<close>.\<close>

definition noFinalConsonant :: "jsstring \<Rightarrow> bool" where
  "noFinalConsonant d \<longleftrightarrow> d = [] \<or> map_of d2i_consonants [last d] = None"

lemma noFinalConsonant_suffix: "noFinalConsonant (p @ d) \<Longrightarrow> noFinalConsonant d"
  by (cases "d = []") (simp_all add: noFinalConsonant_def)

lemma i2d_sign1_letter:
  assumes "map_of i2d_vowelSigns [y] = Some sl"
  shows "y \<noteq> 0x61 \<and> y \<noteq> 0x68"
proof -
  from assms have "([y], sl) \<in> set i2d_vowelSigns" by (rule map_of_SomeD)
  then show ?thesis
    unfolding i2d_vowelSigns_def list.set insert_iff empty_iff
    by (elim disjE FalseE; simp)
qed

lemma i2d_sign_i_u: "map_of i2d_vowelSigns [0x69] \<noteq> None" "map_of i2d_vowelSigns [0x75] \<noteq> None"
  by (simp_all add: i2d_vowelSigns_def)

lemma i2d_consonant2_None: "w \<noteq> 0x68 \<Longrightarrow> map_of i2d_consonants [x, w] = None"
  using i2d_consonant2[of x w] by (cases "map_of i2d_consonants [x, w]") auto

lemma dmap_not_i_u: "v \<noteq> 0x69 \<Longrightarrow> v \<noteq> 0x75 \<Longrightarrow> dmap v \<noteq> 0x69 \<and> dmap v \<noteq> 0x75"
  using ascii_digit_facts[of v] dmap_cases[of v] by auto

lemma dmap_not_om: "v \<noteq> 0x1E41 \<Longrightarrow> dmap v \<noteq> 0x1E41"
  using ascii_digit_facts[of v] dmap_cases[of v] by auto

lemma round_trip_after_consonant:
  assumes G: "map_of d2i_consonants [G] = Some k"
    and plain0: "iastToDevanagari k = G # afterC []"
    and plain: "\<And>L. L \<noteq> [] \<Longrightarrow> hd L \<noteq> 0x61 \<Longrightarrow> Q (hd L)
                  \<Longrightarrow> iastToDevanagari (k @ L) = G # afterC L"
    and Qh: "\<And>w. w \<noteq> 0x68 \<Longrightarrow> Q w"
    and Qxs: "xs \<noteq> [] \<Longrightarrow> Q (hd xs)"
    and fa: "\<And>L. L = [] \<or> (hd L \<noteq> 0x69 \<and> hd L \<noteq> 0x75)
                  \<Longrightarrow> iastToDevanagari (k @ 0x61 # L) = G # iastToDevanagari L"
    and fai: "\<And>L. xs \<noteq> [] \<Longrightarrow> hd xs = 0x61
                  \<Longrightarrow> iastToDevanagari (k @ 0x61 # L) = G # afterC (0x61 # L)"
    and lt: "latinText xs"
    and eo: "noFinalConsonant (G # afterC xs)"
    and ih: "\<And>r. length r \<le> length xs \<Longrightarrow> latinText r
                  \<Longrightarrow> noFinalConsonant (iastToDevanagari r)
                  \<Longrightarrow> iastToDevanagari (devanagariToIAST (iastToDevanagari r))
                        = iastToDevanagari r"
  shows "iastToDevanagari (devanagariToIAST (G # afterC xs)) = G # afterC xs"
proof (cases xs)
  case Nil
  have "devanagariToIAST (G # afterC xs) = k"
    using Nil g_cons_virama[OF G, of "[]"] by (simp add: afterC_end devanagariToIAST_Nil)
  with plain0 Nil show ?thesis by simp
next
  case (Cons y ys)
  from lt Cons have lys: "latinText ys" by (simp add: latinText_Cons)
  show ?thesis
  proof (cases "\<exists>z zs sl. ys = z # zs \<and> map_of i2d_vowelSigns [y, z] = Some sl")
    case True
    then obtain z zs sl where ys: "ys = z # zs"
      and s2: "map_of i2d_vowelSigns [y, z] = Some sl" by blast
    from i2d_sign2[OF s2] have ya: "y = 0x61" by simp
    from i2d_sign_glyph[OF s2] obtain S where S: "sl = [S]"
      "map_of d2i_vowelSigns [S] = Some [y, z]" by blast
    from lys ys have lzs: "latinText zs" by (simp add: latinText_Cons)
    have ac: "afterC xs = S # iastToDevanagari zs"
      using Cons ys afterC_sign2[OF s2, of zs] S by simp
    have eoz: "noFinalConsonant (iastToDevanagari zs)"
      using eo ac noFinalConsonant_suffix[of "[G, S]" "iastToDevanagari zs"] by simp
    have ihz: "iastToDevanagari (devanagariToIAST (iastToDevanagari zs)) = iastToDevanagari zs"
      using ih[of zs] Cons ys lzs eoz by simp
    have "devanagariToIAST (G # afterC xs)
            = k @ 0x61 # z # devanagariToIAST (iastToDevanagari zs)"
      unfolding ac using g_cons_sign[OF G S(2), of "iastToDevanagari zs"] ya by simp
    then have "iastToDevanagari (devanagariToIAST (G # afterC xs))
            = iastToDevanagari (k @ 0x61 # z # devanagariToIAST (iastToDevanagari zs))"
      by simp
    also have "\<dots> = G # afterC (0x61 # z # devanagariToIAST (iastToDevanagari zs))"
      using fai Cons ya by simp
    also have "afterC (0x61 # z # devanagariToIAST (iastToDevanagari zs))
                 = sl @ iastToDevanagari (devanagariToIAST (iastToDevanagari zs))"
      using s2 ya by (intro afterC_sign2) simp
    finally show ?thesis using ihz ac S by simp
  next
    case no2: False
    show ?thesis
    proof (cases "map_of i2d_vowelSigns [y]")
      case (Some sl)
      from i2d_sign1_letter[OF Some] have ya: "y \<noteq> 0x61" and yh: "y \<noteq> 0x68" by simp_all
      from i2d_sign_glyph[OF Some] obtain S where S: "sl = [S]"
        "map_of d2i_vowelSigns [S] = Some [y]" by blast
      have ac: "afterC xs = S # iastToDevanagari ys"
        using Cons afterC_sign1[OF Some, of ys] S by simp
      have eoy: "noFinalConsonant (iastToDevanagari ys)"
        using eo ac noFinalConsonant_suffix[of "[G, S]" "iastToDevanagari ys"] by simp
      have ihy: "iastToDevanagari (devanagariToIAST (iastToDevanagari ys)) = iastToDevanagari ys"
        using ih[of ys] Cons lys eoy by simp
      have "devanagariToIAST (G # afterC xs)
              = k @ y # devanagariToIAST (iastToDevanagari ys)"
        unfolding ac using g_cons_sign[OF G S(2), of "iastToDevanagari ys"] by simp
      then have "iastToDevanagari (devanagariToIAST (G # afterC xs))
              = iastToDevanagari (k @ y # devanagariToIAST (iastToDevanagari ys))"
        by simp
      also have "\<dots> = G # afterC (y # devanagariToIAST (iastToDevanagari ys))"
        using ya Qh[OF yh] by (intro plain) simp_all
      also have "afterC (y # devanagariToIAST (iastToDevanagari ys))
                   = sl @ iastToDevanagari (devanagariToIAST (iastToDevanagari ys))"
        using Some by (rule afterC_sign1)
      finally show ?thesis using ihy ac S by simp
    next
      case nos: None
      show ?thesis
      proof (cases "y = 0x61")
        case ya: True
        have nxt: "ys = [] \<or> (hd ys \<noteq> 0x69 \<and> hd ys \<noteq> 0x75)"
        proof (cases ys)
          case Nil
          then show ?thesis by simp
        next
          case (Cons z zs)
          with no2 ya have "map_of i2d_vowelSigns [0x61, z] = None" by simp
          with i2d_sign_ai_au Cons show ?thesis by auto
        qed
        have ac: "afterC xs = iastToDevanagari ys"
          using Cons ya afterC_a[OF nxt] by simp
        show ?thesis
        proof (cases ys)
          case Nil
          with ac eo have "map_of d2i_consonants [G] = None"
            by (simp add: noFinalConsonant_def iastToDevanagari_Nil)
          with G show ?thesis by simp
        next
          case (Cons z zs)
          from first_unit[OF lys[unfolded Cons]] obtain G' d where
            fy: "iastToDevanagari ys = G' # d" and ns: "map_of d2i_vowelSigns [G'] = None"
              "G' \<noteq> 0x94D"
            and gy: "\<forall>ds. \<exists>r'. devanagariToIAST (G' # ds) = dmap z # r'"
            unfolding Cons by blast
          from gy obtain l where l: "devanagariToIAST (iastToDevanagari ys) = dmap z # l"
            unfolding fy by blast
          have eoy: "noFinalConsonant (iastToDevanagari ys)"
            using eo ac noFinalConsonant_suffix[of "[G]" "iastToDevanagari ys"] by simp
          have ihy: "iastToDevanagari (devanagariToIAST (iastToDevanagari ys))
                       = iastToDevanagari ys"
            using ih[of ys] \<open>xs = y # ys\<close> lys eoy by simp
          from nxt Cons have "z \<noteq> 0x69" "z \<noteq> 0x75" by simp_all
          then have dz: "dmap z \<noteq> 0x69 \<and> dmap z \<noteq> 0x75" by (rule dmap_not_i_u)
          have "devanagariToIAST (G # afterC xs)
                  = k @ 0x61 # devanagariToIAST (iastToDevanagari ys)"
            unfolding ac fy using g_cons_inherent[OF G ns, of d] by simp
          then have "iastToDevanagari (devanagariToIAST (G # afterC xs))
                  = iastToDevanagari (k @ 0x61 # devanagariToIAST (iastToDevanagari ys))"
            by simp
          also have "\<dots> = G # iastToDevanagari (devanagariToIAST (iastToDevanagari ys))"
            using dz l by (intro fa) simp
          finally show ?thesis using ihy ac by simp
        qed
      next
        case ya: False
        define vir :: jsstring where
          "vir = (if map_of i2d_consonants [y] \<noteq> None \<or> isWordBoundary y then [0x94D] else [])"
        have ac: "afterC xs = vir @ iastToDevanagari xs"
          using Cons afterC_plain[OF nos ya, of ys] by (simp add: vir_def)
        from first_unit[OF lt[unfolded Cons]] obtain G' d where
          fx: "iastToDevanagari xs = G' # d" and ns: "map_of d2i_vowelSigns [G'] = None"
            "G' \<noteq> 0x94D"
          and gx: "\<forall>ds. \<exists>r'. devanagariToIAST (G' # ds) = dmap y # r'"
          unfolding Cons by blast
        from gx obtain l where l: "devanagariToIAST (iastToDevanagari xs) = dmap y # l"
          unfolding fx by blast
        have eox: "noFinalConsonant (iastToDevanagari xs)"
          using eo ac noFinalConsonant_suffix[of "G # vir" "iastToDevanagari xs"] by simp
        have ihx: "iastToDevanagari (devanagariToIAST (iastToDevanagari xs))
                     = iastToDevanagari xs"
          using ih[of xs] lt eox by simp
        show ?thesis
        proof (cases "map_of i2d_consonants [y] \<noteq> None \<or> isWordBoundary y")
          case True
          then have v: "vir = [0x94D]" by (simp add: vir_def)
          from True have dy: "dmap y = y"
            using dmap_consonant[of y] dmap_boundary[of y] by auto
          have "devanagariToIAST (G # afterC xs) = k @ devanagariToIAST (iastToDevanagari xs)"
            unfolding ac v using g_cons_virama[OF G, of "iastToDevanagari xs"] by simp
          then have "iastToDevanagari (devanagariToIAST (G # afterC xs))
                  = iastToDevanagari (k @ y # l)"
            using l dy by simp
          also have "\<dots> = G # afterC (y # l)"
            using ya Qxs Cons by (intro plain) simp_all
          also have "afterC (y # l) = vir @ iastToDevanagari (y # l)"
            using afterC_plain[OF nos ya, of l] by (simp add: vir_def)
          finally show ?thesis using ihx ac l dy by simp
        next
          case False
          then have v: "vir = []" by (simp add: vir_def)
          from nos i2d_sign_i_u have "y \<noteq> 0x69" "y \<noteq> 0x75" by auto
          then have dy: "dmap y \<noteq> 0x69 \<and> dmap y \<noteq> 0x75" by (rule dmap_not_i_u)
          have "devanagariToIAST (G # afterC xs)
                  = k @ 0x61 # devanagariToIAST (iastToDevanagari xs)"
            unfolding ac v fx using g_cons_inherent[OF G ns, of d] by simp
          then have "iastToDevanagari (devanagariToIAST (G # afterC xs))
                  = iastToDevanagari (k @ 0x61 # devanagariToIAST (iastToDevanagari xs))"
            by simp
          also have "\<dots> = G # iastToDevanagari (devanagariToIAST (iastToDevanagari xs))"
            using dy l by (intro fa) simp
          finally show ?thesis using ihx ac v by simp
        qed
      qed
    qed
  qed
qed

text \<open>
  The round trip, by induction on the length of the text. The first unit of the text is
  converted to its glyphs; \<open>devanagariToIAST\<close> reads them back as the same Latin letters,
  with an \<open>a\<close> after a consonant glyph that no vowel sign and no virama follows; and
  \<open>iastToDevanagari\<close> converts these letters to the same glyphs again, because the text that
  follows them starts with the same code unit as before.
\<close>

lemma round_trip_latin:
  "latinText t \<Longrightarrow> noFinalConsonant (iastToDevanagari t) \<Longrightarrow>
     iastToDevanagari (devanagariToIAST (iastToDevanagari t)) = iastToDevanagari t"
proof (induction "length t" arbitrary: t rule: less_induct)
  case less
  note lt = less.prems(1) and eo = less.prems(2)
  have ih: "iastToDevanagari (devanagariToIAST (iastToDevanagari r)) = iastToDevanagari r"
    if "length r < length t" "latinText r" "noFinalConsonant (iastToDevanagari r)" for r
    using less.hyps[OF that] .
  show ?case
  proof (cases t)
    case Nil
    then show ?thesis by (simp add: iastToDevanagari_Nil devanagariToIAST_Nil)
  next
    case (Cons x xs)
    from lt Cons have ux: "unrecognizedD x" and xn: "x \<noteq> 0x1E43" and lxs: "latinText xs"
      by (simp_all add: latinText_Cons)
    show ?thesis
    proof (cases "\<exists>y ys gl. xs = y # ys \<and> map_of i2d_consonants [x, y] = Some gl")
      case True
      then obtain y ys gl where xs: "xs = y # ys"
        and k: "map_of i2d_consonants [x, y] = Some gl" by blast
      from i2d_consonant_glyph[OF k] obtain G where G: "gl = [G]"
        "map_of d2i_consonants [G] = Some [x, y]" by blast
      from lxs xs have lys: "latinText ys" by (simp add: latinText_Cons)
      show ?thesis
      proof (cases "ys \<noteq> [] \<and> hd ys = 0x61")
        case True
        then obtain zs where ys: "ys = 0x61 # zs" by (cases ys) auto
        from lys ys have lzs: "latinText zs" by (simp add: latinText_Cons)
        have ft: "iastToDevanagari t = G # iastToDevanagari zs"
          using Cons xs ys f_aspirated_a[OF k, of zs] G by simp
        show ?thesis
        proof (cases zs)
          case Nil
          with ft eo have "map_of d2i_consonants [G] = None"
            by (simp add: noFinalConsonant_def iastToDevanagari_Nil)
          with G show ?thesis by simp
        next
          case (Cons z zs')
          from first_unit[OF lzs[unfolded Cons]] obtain G' d where
            fz: "iastToDevanagari zs = G' # d" and ns: "map_of d2i_vowelSigns [G'] = None"
              "G' \<noteq> 0x94D"
            unfolding Cons by blast
          have eoz: "noFinalConsonant (iastToDevanagari zs)"
            using eo ft noFinalConsonant_suffix[of "[G]" "iastToDevanagari zs"] by simp
          have ihz: "iastToDevanagari (devanagariToIAST (iastToDevanagari zs))
                       = iastToDevanagari zs"
            using ih[of zs] \<open>t = x # xs\<close> xs ys lzs eoz by simp
          have "devanagariToIAST (iastToDevanagari t)
                  = x # y # 0x61 # devanagariToIAST (iastToDevanagari zs)"
            unfolding ft fz using g_cons_inherent[OF G(2) ns, of d] by simp
          then have "iastToDevanagari (devanagariToIAST (iastToDevanagari t))
                  = iastToDevanagari (x # y # 0x61 # devanagariToIAST (iastToDevanagari zs))"
            by simp
          also have "\<dots> = gl @ iastToDevanagari (devanagariToIAST (iastToDevanagari zs))"
            using k by (rule f_aspirated_a)
          finally show ?thesis using ihz ft G by simp
        qed
      next
        case False
        then have na: "ys = [] \<or> hd ys \<noteq> 0x61" by blast
        have ft: "iastToDevanagari t = G # afterC ys"
          using Cons xs f_consonant2[OF k na] G by simp
        have "iastToDevanagari (devanagariToIAST (G # afterC ys)) = G # afterC ys"
        proof (rule round_trip_after_consonant[where k = "[x, y]" and Q = "\<lambda>w. True"])
          show "map_of d2i_consonants [G] = Some [x, y]" by (rule G(2))
          show "iastToDevanagari [x, y] = G # afterC []"
            using f_consonant2[OF k, of "[]"] G by simp
          show "iastToDevanagari ([x, y] @ L) = G # afterC L" if "L \<noteq> []" "hd L \<noteq> 0x61" for L
            using f_consonant2[OF k, of L] that G by simp
          show "True" ..
          show "True" ..
          show "iastToDevanagari ([x, y] @ 0x61 # L) = G # iastToDevanagari L" for L
            using f_aspirated_a[OF k, of L] G by simp
          show "iastToDevanagari ([x, y] @ 0x61 # L) = G # afterC (0x61 # L)"
            if "ys \<noteq> []" "hd ys = 0x61" for L
            using that na by simp
          show "latinText ys" by (rule lys)
          show "noFinalConsonant (G # afterC ys)" using eo ft by simp
          show "iastToDevanagari (devanagariToIAST (iastToDevanagari r)) = iastToDevanagari r"
            if "length r \<le> length ys" "latinText r" "noFinalConsonant (iastToDevanagari r)" for r
            using ih[of r] that \<open>t = x # xs\<close> xs by simp
        qed
        with ft show ?thesis by simp
      qed
    next
      case no2c: False
      show ?thesis
      proof (cases "\<exists>y ys vl. xs = y # ys \<and> map_of i2d_vowels [x, y] = Some vl")
        case True
        then obtain y ys vl where xs: "xs = y # ys"
          and k: "map_of i2d_vowels [x, y] = Some vl" by blast
        from i2d_vowel_glyph[OF k] obtain V where V: "vl = [V]"
          "map_of d2i_vowels [V] = Some [x, y] \<or> map_of d2i_special [V] = Some [x, y]" by blast
        from lxs xs have lys: "latinText ys" by (simp add: latinText_Cons)
        have ft: "iastToDevanagari t = V # iastToDevanagari ys"
          using Cons xs f_vowel2[OF k, of ys] V by simp
        have eoy: "noFinalConsonant (iastToDevanagari ys)"
          using eo ft noFinalConsonant_suffix[of "[V]" "iastToDevanagari ys"] by simp
        have ihy: "iastToDevanagari (devanagariToIAST (iastToDevanagari ys)) = iastToDevanagari ys"
          using ih[of ys] \<open>t = x # xs\<close> xs lys eoy by simp
        from V(2) have "devanagariToIAST (iastToDevanagari t)
                = x # y # devanagariToIAST (iastToDevanagari ys)"
          unfolding ft using g_vowel[of V "[x, y]" "iastToDevanagari ys"]
            g_special[of V "[x, y]" "iastToDevanagari ys"] by auto
        then have "iastToDevanagari (devanagariToIAST (iastToDevanagari t))
                = iastToDevanagari (x # y # devanagariToIAST (iastToDevanagari ys))"
          by simp
        also have "\<dots> = vl @ iastToDevanagari (devanagariToIAST (iastToDevanagari ys))"
          using k by (rule f_vowel2)
        finally show ?thesis using ihy ft V by simp
      next
        case no2v: False
        show ?thesis
        proof (cases "map_of i2d_consonants [x]")
          case (Some gl)
          from i2d_consonant_glyph[OF Some] obtain G where G: "gl = [G]"
            "map_of d2i_consonants [G] = Some [x]" by blast
          have c1: "L = [] \<or> map_of i2d_consonants [x, hd L] = None
                      \<Longrightarrow> iastToDevanagari (x # L) = G # afterC L" for L
            using f_consonant1[OF Some, of L] G by simp
          have nxt: "xs = [] \<or> map_of i2d_consonants [x, hd xs] = None"
            using no2c by (cases xs) auto
          have ft: "iastToDevanagari t = G # afterC xs"
            using Cons c1[OF nxt] by simp
          have xa: "map_of i2d_consonants [x, 0x61] = None"
            by (rule i2d_consonant2_None) simp
          have "iastToDevanagari (devanagariToIAST (G # afterC xs)) = G # afterC xs"
          proof (rule round_trip_after_consonant[where k = "[x]"
                and Q = "\<lambda>w. map_of i2d_consonants [x, w] = None"])
            show "map_of d2i_consonants [G] = Some [x]" by (rule G(2))
            show "iastToDevanagari [x] = G # afterC []" using c1[of "[]"] by simp
            show "iastToDevanagari ([x] @ L) = G # afterC L"
              if "L \<noteq> []" "hd L \<noteq> 0x61" "map_of i2d_consonants [x, hd L] = None" for L
              using c1[of L] that by simp
            show "map_of i2d_consonants [x, w] = None" if "w \<noteq> 0x68" for w
              using that by (rule i2d_consonant2_None)
            show "map_of i2d_consonants [x, hd xs] = None" if "xs \<noteq> []"
              using that nxt by simp
            show "iastToDevanagari ([x] @ 0x61 # L) = G # iastToDevanagari L"
              if "L = [] \<or> (hd L \<noteq> 0x69 \<and> hd L \<noteq> 0x75)" for L
              using c1[of "0x61 # L"] xa afterC_a[OF that] by simp
            show "iastToDevanagari ([x] @ 0x61 # L) = G # afterC (0x61 # L)" for L
              using c1[of "0x61 # L"] xa by simp
            show "latinText xs" by (rule lxs)
            show "noFinalConsonant (G # afterC xs)" using eo ft by simp
            show "iastToDevanagari (devanagariToIAST (iastToDevanagari r)) = iastToDevanagari r"
              if "length r \<le> length xs" "latinText r" "noFinalConsonant (iastToDevanagari r)"
              for r
              using ih[of r] that \<open>t = x # xs\<close> by simp
          qed
          with ft show ?thesis by simp
        next
          case noc: None
          show ?thesis
          proof (cases "map_of i2d_vowels [x]")
            case (Some vl)
            from i2d_vowel_glyph[OF Some] obtain V where V: "vl = [V]"
              "map_of d2i_vowels [V] = Some [x] \<or> map_of d2i_special [V] = Some [x]" by blast
            have nxt: "xs = [] \<or> map_of i2d_vowels [x, hd xs] = None"
              using no2v by (cases xs) auto
            have ft: "iastToDevanagari t = V # iastToDevanagari xs"
              using Cons f_vowel1[OF Some nxt] V by simp
            have eox: "noFinalConsonant (iastToDevanagari xs)"
              using eo ft noFinalConsonant_suffix[of "[V]" "iastToDevanagari xs"] by simp
            have ihx: "iastToDevanagari (devanagariToIAST (iastToDevanagari xs))
                         = iastToDevanagari xs"
              using ih[of xs] \<open>t = x # xs\<close> lxs eox by simp
            have nb: "devanagariToIAST (iastToDevanagari xs) = []
                          \<or> map_of i2d_vowels [x, hd (devanagariToIAST (iastToDevanagari xs))] = None"
            proof (cases xs)
              case Nil
              then show ?thesis by (simp add: iastToDevanagari_Nil devanagariToIAST_Nil)
            next
              case (Cons y ys)
              from first_unit[OF lxs[unfolded Cons]] obtain l where
                l: "devanagariToIAST (iastToDevanagari xs) = dmap y # l"
                unfolding Cons by metis
              have "map_of i2d_vowels [x, dmap y] = None"
              proof (cases "dmap y = y")
                case True
                with nxt Cons show ?thesis by simp
              next
                case False
                with dmap_cases[of y] have "0x30 \<le> y \<and> y \<le> 0x39" by simp
                with ascii_digit_facts[of y] have "dmap y \<noteq> 0x69" "dmap y \<noteq> 0x75"
                  "dmap y \<noteq> 0x1E41" by simp_all
                with i2d_vowel2_second[of x "dmap y"] show ?thesis
                  by (cases "map_of i2d_vowels [x, dmap y]") auto
              qed
              with l show ?thesis by simp
            qed
            from V(2) have "devanagariToIAST (iastToDevanagari t)
                    = x # devanagariToIAST (iastToDevanagari xs)"
              unfolding ft using g_vowel[of V "[x]" "iastToDevanagari xs"]
                g_special[of V "[x]" "iastToDevanagari xs"] by auto
            then have "iastToDevanagari (devanagariToIAST (iastToDevanagari t))
                    = iastToDevanagari (x # devanagariToIAST (iastToDevanagari xs))"
              by simp
            also have "\<dots> = vl @ iastToDevanagari (devanagariToIAST (iastToDevanagari xs))"
              using Some nb by (rule f_vowel1)
            finally show ?thesis using ihx ft V by simp
          next
            case nov: None
            show ?thesis
            proof (cases "map_of i2d_special [x]")
              case (Some sl)
              from i2d_special_glyph[OF Some nov xn] obtain S where S: "sl = [S]"
                "(map_of d2i_special [S] = Some [x] \<and> dmap x = x)
                   \<or> (0x30 \<le> x \<and> x \<le> 0x39 \<and> S = dmap x)" by blast
              have ft: "iastToDevanagari t = S # iastToDevanagari xs"
                using Cons f_special[OF Some nov, of xs] S by simp
              have eox: "noFinalConsonant (iastToDevanagari xs)"
                using eo ft noFinalConsonant_suffix[of "[S]" "iastToDevanagari xs"] by simp
              have ihx: "iastToDevanagari (devanagariToIAST (iastToDevanagari xs))
                           = iastToDevanagari xs"
                using ih[of xs] \<open>t = x # xs\<close> lxs eox by simp
              from S(2) show ?thesis
              proof
                assume a: "map_of d2i_special [S] = Some [x] \<and> dmap x = x"
                then have "devanagariToIAST (iastToDevanagari t)
                    = x # devanagariToIAST (iastToDevanagari xs)"
                  unfolding ft using g_special[of S "[x]" "iastToDevanagari xs"] by simp
                then have "iastToDevanagari (devanagariToIAST (iastToDevanagari t))
                    = iastToDevanagari (x # devanagariToIAST (iastToDevanagari xs))"
                  by simp
                also have "\<dots> = sl @ iastToDevanagari (devanagariToIAST (iastToDevanagari xs))"
                  using Some nov by (rule f_special)
                finally show ?thesis using ihx ft S by simp
              next
                assume a: "0x30 \<le> x \<and> x \<le> 0x39 \<and> S = dmap x"
                with ascii_digit_facts[of x] have u: "unrecognizedD S" and v: "unrecognizedI S"
                  by simp_all
                note l = unrecognizedD_lookups[OF u]
                note m = unrecognizedI_lookups[OF v]
                have "devanagariToIAST (iastToDevanagari t)
                    = S # devanagariToIAST (iastToDevanagari xs)"
                  unfolding ft using l by (intro g_other) simp_all
                then have "iastToDevanagari (devanagariToIAST (iastToDevanagari t))
                    = iastToDevanagari (S # devanagariToIAST (iastToDevanagari xs))"
                  by simp
                also have "\<dots> = S # iastToDevanagari (devanagariToIAST (iastToDevanagari xs))"
                  using m by (intro f_other) simp_all
                finally show ?thesis using ihx ft by simp
              qed
            next
              case nos: None
              have ft: "iastToDevanagari t = x # iastToDevanagari xs"
                using Cons f_other[OF noc nov nos, of xs] by simp
              have eox: "noFinalConsonant (iastToDevanagari xs)"
                using eo ft noFinalConsonant_suffix[of "[x]" "iastToDevanagari xs"] by simp
              have ihx: "iastToDevanagari (devanagariToIAST (iastToDevanagari xs))
                           = iastToDevanagari xs"
                using ih[of xs] \<open>t = x # xs\<close> lxs eox by simp
              note l = unrecognizedD_lookups[OF ux]
              have "devanagariToIAST (iastToDevanagari t)
                    = x # devanagariToIAST (iastToDevanagari xs)"
                unfolding ft using l by (intro g_other) simp_all
              then have "iastToDevanagari (devanagariToIAST (iastToDevanagari t))
                    = iastToDevanagari (x # devanagariToIAST (iastToDevanagari xs))"
                by simp
              also have "\<dots> = x # iastToDevanagari (devanagariToIAST (iastToDevanagari xs))"
                using noc nov nos by (rule f_other)
              finally show ?thesis using ihx ft by simp
            qed
          qed
        qed
      qed
    qed
  qed
qed

text \<open>
  Claim C1 (round trip of the script converter), amended. For every Latin-side text \<open>t\<close>, that
  is, a text with no code unit of a key of the lookup objects of \<open>devanagariToIAST\<close>, no
  virama and no U+1E43, whose conversion \<open>iastToDevanagari t\<close> does not end in a consonant
  glyph: converting to Latin and back reproduces the alphasyllabic form,
  \<open>toAlphasyllabic(toLatinDiacritic(toAlphasyllabic(t))) = toAlphasyllabic(t)\<close>.
\<close>

theorem round_trip_of_latin_text:
  assumes "\<forall>c \<in> set t. unrecognizedD c \<and> c \<noteq> 0x1E43"
    and "iastToDevanagari t = [] \<or> map_of d2i_consonants [last (iastToDevanagari t)] = None"
  shows "iastToDevanagari (devanagariToIAST (iastToDevanagari t)) = iastToDevanagari t"
  using round_trip_latin[of t] assms by (simp add: latinText_def noFinalConsonant_def)

text \<open>
  \<open>r\<close> U+0101 \<open>ma\<close> U+1E25 is converted to the four glyphs U+0930 U+093E U+092E U+0903, which
  come back as the same Latin text; \<open>tat\<close> is converted to U+0924 U+0924 U+094D, which comes
  back as \<open>tat\<close>.
\<close>

theorem round_trip_of_latin_text_witness:
  "iastToDevanagari [0x72, 0x101, 0x6D, 0x61, 0x1E25] = [0x930, 0x93E, 0x92E, 0x903]
   \<and> map_of d2i_consonants [last [0x930, 0x93E, 0x92E, 0x903]] = None
   \<and> devanagariToIAST [0x930, 0x93E, 0x92E, 0x903] = [0x72, 0x101, 0x6D, 0x61, 0x1E25]
   \<and> iastToDevanagari (devanagariToIAST (iastToDevanagari [0x72, 0x101, 0x6D, 0x61, 0x1E25]))
       = iastToDevanagari [0x72, 0x101, 0x6D, 0x61, 0x1E25]
   \<and> iastToDevanagari [0x74, 0x61, 0x74] = [0x924, 0x924, 0x94D]
   \<and> devanagariToIAST [0x924, 0x924, 0x94D] = [0x74, 0x61, 0x74]
   \<and> iastToDevanagari (devanagariToIAST (iastToDevanagari [0x74, 0x61, 0x74]))
       = iastToDevanagari [0x74, 0x61, 0x74]"
proof -
  let ?t = "[0x72, 0x101, 0x6D, 0x61, 0x1E25] :: jsstring"
  let ?u = "[0x74, 0x61, 0x74] :: jsstring"
  have f1: "iastToDevanagari ?t = [0x930, 0x93E, 0x92E, 0x903]"
    by (simp add: converter_eval)
  have g1: "devanagariToIAST [0x930, 0x93E, 0x92E, 0x903] = ?t"
    by (simp add: converter_eval)
  have l1: "map_of d2i_consonants [last [0x930, 0x93E, 0x92E, 0x903]] = None"
    by (simp add: d2i_consonants_def)
  have u1: "\<forall>c \<in> set ?t. unrecognizedD c \<and> c \<noteq> 0x1E43"
    by (simp add: unrecognizedD_def d2i_vowels_def d2i_vowelSigns_def d2i_consonants_def
        d2i_special_def)
  have e1: "iastToDevanagari ?t = []
              \<or> map_of d2i_consonants [last (iastToDevanagari ?t)] = None"
    unfolding f1 using l1 by simp
  have f2: "iastToDevanagari ?u = [0x924, 0x924, 0x94D]"
    by (simp add: converter_eval)
  have g2: "devanagariToIAST [0x924, 0x924, 0x94D] = ?u"
    by (simp add: converter_eval)
  have u2: "\<forall>c \<in> set ?u. unrecognizedD c \<and> c \<noteq> 0x1E43"
    by (simp add: unrecognizedD_def d2i_vowels_def d2i_vowelSigns_def d2i_consonants_def
        d2i_special_def)
  have e2: "iastToDevanagari ?u = []
              \<or> map_of d2i_consonants [last (iastToDevanagari ?u)] = None"
    unfolding f2 by (simp add: d2i_consonants_def)
  note r1 = round_trip_of_latin_text[OF u1 e1]
  note r2 = round_trip_of_latin_text[OF u2 e2]
  from f1 l1 g1 r1 f2 g2 r2 show ?thesis by blast
qed

text \<open>
  Claim C1, as the claim states it, fails on \<open>ka\<close>: its conversion is the glyph U+0915 alone;
  \<open>devanagariToIAST\<close> gives a consonant at the end of the text no inherent \<open>a\<close>, so the Latin
  form is \<open>k\<close>, and \<open>iastToDevanagari\<close> closes a final consonant with a virama.
\<close>

theorem round_trip_final_consonant:
  "iastToDevanagari [0x6B, 0x61] = [0x915]
   \<and> devanagariToIAST [0x915] = [0x6B]
   \<and> iastToDevanagari [0x6B] = [0x915, 0x94D]
   \<and> iastToDevanagari (devanagariToIAST (iastToDevanagari [0x6B, 0x61]))
       \<noteq> iastToDevanagari [0x6B, 0x61]"
  by (simp add: converter_eval)

text \<open>
  The anusvara U+1E43 comes back as U+1E41, and \<open>o\<close> U+1E41 is the key of the sign U+0950:
  \<open>o\<close> U+1E43 is converted to U+0913 U+0902, which comes back as U+0950.
\<close>

lemma round_trip_om_with_dot_below:
  "iastToDevanagari [0x6F, 0x1E43] = [0x913, 0x902]
   \<and> devanagariToIAST [0x913, 0x902] = [0x6F, 0x1E41]
   \<and> iastToDevanagari [0x6F, 0x1E41] = [0x950]"
  by (simp add: converter_eval)

text \<open>
  Glyphs in the text are copied by \<open>iastToDevanagari\<close>, and the Latin form has no mark for a
  hiatus: U+0905 U+0907 comes back as the one glyph U+0910.
\<close>

lemma round_trip_devanagari_hiatus:
  "iastToDevanagari [0x905, 0x907] = [0x905, 0x907]
   \<and> devanagariToIAST [0x905, 0x907] = [0x61, 0x69]
   \<and> iastToDevanagari [0x61, 0x69] = [0x910]"
  by (simp add: converter_eval)

end
